theory Spec2Isabelle
  imports
    Complex_Main
    "HOL-Library.AList"
    "HOL-Library.Char_ord"
    "HOL-Library.List_Lexorder"
    "HOL-Library.Product_Lexorder"
begin

section \<open>Strings\<close>

text \<open>
  Python strings are modelled as \<^typ>\<open>string\<close>. The model covers ASCII text: on ASCII
  \<open>str.lower\<close> maps \<open>A\<close>..\<open>Z\<close> to \<open>a\<close>..\<open>z\<close> and leaves every other character alone,
  and the regular-expression class \<open>\w\<close> is \<open>[a-zA-Z0-9_]\<close>.
\<close>

definition lower_char :: "char \<Rightarrow> char" where
  "lower_char c =
     (let n = (of_char c :: nat) in if 65 \<le> n \<and> n \<le> 90 then char_of (n + 32) else c)"

definition lower :: "string \<Rightarrow> string" where
  "lower s = map lower_char s"

text \<open>\<open>s.startswith(p)\<close>.\<close>

fun startswith :: "string \<Rightarrow> string \<Rightarrow> bool" where
  "startswith s [] = True"
| "startswith [] (p # ps) = False"
| "startswith (c # cs) (p # ps) = (c = p \<and> startswith cs ps)"

text \<open>\<open>s.endswith(p)\<close>.\<close>

definition endswith :: "string \<Rightarrow> string \<Rightarrow> bool" where
  "endswith s p = startswith (rev s) (rev p)"

text \<open>Python's \<open>k in s\<close> on strings: \<open>k\<close> occurs in \<open>s\<close> as a contiguous substring.\<close>

fun is_substring :: "string \<Rightarrow> string \<Rightarrow> bool" where
  "is_substring k [] = (k = [])"
| "is_substring k (c # cs) = (startswith (c # cs) k \<or> is_substring k cs)"

text \<open>\<open>[a-zA-Z0-9_]\<close>, which is also \<open>\w\<close> on ASCII text.\<close>

definition is_word_char :: "char \<Rightarrow> bool" where
  "is_word_char c =
     (let n = (of_char c :: nat) in
        (97 \<le> n \<and> n \<le> 122) \<or> (65 \<le> n \<and> n \<le> 90) \<or> (48 \<le> n \<and> n \<le> 57) \<or> n = 95)"

section \<open>Regular-expression search\<close>

text \<open>
  A pattern is modelled by its matcher at one position: given the text from that position
  on, it returns the captured group and the text left after the whole match, or \<open>None\<close>
  when the pattern does not match there. \<open>re.search\<close> tries the positions from the left
  and returns the first match's group; \<open>re.finditer\<close> yields the groups of all
  non-overlapping matches from the left (after an empty match it moves on by one
  character).
\<close>

type_synonym matcher = "string \<Rightarrow> (string \<times> string) option"

fun re_search :: "matcher \<Rightarrow> string \<Rightarrow> string option" where
  "re_search m [] = map_option fst (m [])"
| "re_search m (c # cs) =
     (case m (c # cs) of Some (g, r) \<Rightarrow> Some g | None \<Rightarrow> re_search m cs)"

function re_finditer :: "matcher \<Rightarrow> string \<Rightarrow> string list" where
  "re_finditer m s =
     (case m s of
        Some (g, r) \<Rightarrow>
          (if length r < length s then g # re_finditer m r
           else (case s of [] \<Rightarrow> [g] | c # cs \<Rightarrow> g # re_finditer m cs))
      | None \<Rightarrow> (case s of [] \<Rightarrow> [] | c # cs \<Rightarrow> re_finditer m cs))"
  by pat_completeness auto
termination
  by (relation "measure (\<lambda>(m, s). length s)") auto

text \<open>A literal: the text after it when the text starts with it.\<close>

definition lit :: "string \<Rightarrow> string \<Rightarrow> string option" where
  "lit l s = (if startswith s l then Some (drop (length l) s) else None)"

text \<open>
  A greedy group \<open>([a-zA-Z0-9_]+)\<close> (or \<open>(\w+)\<close>): the longest non-empty run of word
  characters. In every pattern below what follows the group either is optional or cannot
  start with a word character, so no shorter run can give a match where the longest fails.
\<close>

definition word_group :: matcher where
  "word_group s =
     (let g = takeWhile is_word_char s in
        if g = [] then None else Some (g, dropWhile is_word_char s))"

definition is_quote :: "char \<Rightarrow> bool" where
  "is_quote c = (c = CHR 0x27 \<or> c = CHR 0x22)"

text \<open>\<open>(l1|l2|...)\<close> followed by a continuation: the alternatives are tried in order.\<close>

fun alt_lit :: "string list \<Rightarrow> (string \<Rightarrow> 'a option) \<Rightarrow> string \<Rightarrow> 'a option" where
  "alt_lit [] k s = None"
| "alt_lit (l # ls) k s =
     (case lit l s of
        Some r \<Rightarrow> (case k r of Some x \<Rightarrow> Some x | None \<Rightarrow> alt_lit ls k s)
      | None \<Rightarrow> alt_lit ls k s)"

section \<open>Python values and errors\<close>

datatype pyval =
    PNone
  | PInt int
  | PStr string
  | PList "pyval list"
  | PDict "(string \<times> pyval) list"

datatype py_error = KeyError string | TypeError | IndexError

text \<open>\<open>d[k]\<close> on a value that should be a dict.\<close>

fun getitem :: "pyval \<Rightarrow> string \<Rightarrow> py_error + pyval" where
  "getitem (PDict kvs) k = (case map_of kvs k of None \<Rightarrow> Inl (KeyError k) | Some v \<Rightarrow> Inr v)"
| "getitem v k = Inl TypeError"

section \<open>Plans (planner.py)\<close>

record PlanStep =
  agent :: string
  action :: string
  description :: string
  params :: "(string \<times> pyval) list"

record Plan =
  query :: string
  steps :: "PlanStep list"

definition step_to_dict :: "PlanStep \<Rightarrow> pyval" where
  "step_to_dict step =
     PDict [(''agent'', PStr (agent step)),
            (''action'', PStr (action step)),
            (''description'', PStr (description step)),
            (''params'', PDict (params step))]"

definition to_dict :: "Plan \<Rightarrow> pyval" where
  "to_dict p =
     PDict [(''query'', PStr (query p)),
            (''steps'', PList (map step_to_dict (steps p)))]"

text \<open>
  The fields of \<open>PlanStep\<close> and \<open>Plan\<close> are typed here, so \<open>from_dict\<close> on a dictionary
  whose entries have another type is a \<open>TypeError\<close> of the model; a missing key is the
  \<open>KeyError\<close> of the source.
\<close>

definition step_from_dict :: "pyval \<Rightarrow> py_error + PlanStep" where
  "step_from_dict step_data =
     (case getitem step_data ''agent'' of Inl e \<Rightarrow> Inl e | Inr a \<Rightarrow>
      case getitem step_data ''action'' of Inl e \<Rightarrow> Inl e | Inr b \<Rightarrow>
      case getitem step_data ''description'' of Inl e \<Rightarrow> Inl e | Inr c \<Rightarrow>
      case getitem step_data ''params'' of Inl e \<Rightarrow> Inl e | Inr d \<Rightarrow>
      (case (a, b, c, d) of
         (PStr a', PStr b', PStr c', PDict d') \<Rightarrow>
           Inr \<lparr>agent = a', action = b', description = c', params = d'\<rparr>
       | _ \<Rightarrow> Inl TypeError))"

fun steps_from_list :: "pyval list \<Rightarrow> py_error + PlanStep list" where
  "steps_from_list [] = Inr []"
| "steps_from_list (step_data # rest) =
     (case step_from_dict step_data of
        Inl e \<Rightarrow> Inl e
      | Inr step \<Rightarrow>
          (case steps_from_list rest of Inl e \<Rightarrow> Inl e | Inr ss \<Rightarrow> Inr (step # ss)))"

definition from_dict :: "pyval \<Rightarrow> py_error + Plan" where
  "from_dict data =
     (case getitem data ''query'' of Inl e \<Rightarrow> Inl e | Inr q \<Rightarrow>
      case getitem data ''steps'' of Inl e \<Rightarrow> Inl e | Inr ss \<Rightarrow>
      (case (q, ss) of
         (PStr q', PList ss') \<Rightarrow>
           (case steps_from_list ss' of
              Inl e \<Rightarrow> Inl e
            | Inr sts \<Rightarrow> Inr \<lparr>query = q', steps = sts\<rparr>)
       | _ \<Rightarrow> Inl TypeError))"

subsection \<open>Planner\<close>

definition standard_query :: "PlanStep list" where
  "standard_query =
     [\<lparr>agent = ''schema'', action = ''get_schema_info'',
       description = ''Determine which schema and tables to use'', params = []\<rparr>,
      \<lparr>agent = ''query'', action = ''execute_query'',
       description = ''Generate and execute SQL query'', params = []\<rparr>]"

definition query_with_discrepancy :: "PlanStep list" where
  "query_with_discrepancy =
     [\<lparr>agent = ''schema'', action = ''get_schema_info'',
       description = ''Determine which schema and tables to use'', params = []\<rparr>,
      \<lparr>agent = ''query'', action = ''execute_query'',
       description = ''Generate and execute SQL query'', params = []\<rparr>,
      \<lparr>agent = ''discrepancy'', action = ''check_discrepancies'',
       description = ''Check for discrepancies in the data'', params = []\<rparr>]"

definition templates :: "(string \<times> PlanStep list) list" where
  "templates =
     [(''standard_query'', standard_query),
      (''query_with_discrepancy'', query_with_discrepancy)]"

definition copy_template :: "string \<Rightarrow> PlanStep list" where
  "copy_template template_name =
     map (\<lambda>step. \<lparr>agent = agent step, action = action step,
                   description = description step, params = params step\<rparr>)
       (case map_of templates template_name of None \<Rightarrow> [] | Some t \<Rightarrow> t)"

text \<open>\<open>step.params[k] = v\<close> on every step whose agent is \<open>schema\<close>.\<close>

definition set_schema_param :: "string \<Rightarrow> pyval \<Rightarrow> PlanStep list \<Rightarrow> PlanStep list" where
  "set_schema_param k v sts =
     map (\<lambda>step. if agent step = ''schema''
                  then step\<lparr>params := AList.update k v (params step)\<rparr> else step) sts"

text \<open>\<open>(table|tables) (\w+)\<close> and \<open>(schema|database) (\w+)\<close>.\<close>

definition table_hint_pattern :: matcher where
  "table_hint_pattern = alt_lit [''table'', ''tables''] (\<lambda>r. case lit '' '' r of None \<Rightarrow> None | Some r' \<Rightarrow> word_group r')"

definition schema_hint_pattern :: matcher where
  "schema_hint_pattern = alt_lit [''schema'', ''database''] (\<lambda>r. case lit '' '' r of None \<Rightarrow> None | Some r' \<Rightarrow> word_group r')"

definition customize_plan :: "PlanStep list \<Rightarrow> string \<Rightarrow> PlanStep list" where
  "customize_plan sts q =
     (let query_lower = lower q;
          sts1 = (case re_search table_hint_pattern query_lower of
                    Some table_name \<Rightarrow>
                      set_schema_param ''suggested_tables'' (PList [PStr table_name]) sts
                  | None \<Rightarrow> sts)
      in (case re_search schema_hint_pattern query_lower of
            Some schema_name \<Rightarrow> set_schema_param ''suggested_schema'' (PStr schema_name) sts1
          | None \<Rightarrow> sts1))"

definition discrepancy_keywords :: "string list" where
  "discrepancy_keywords =
     [''discrepancy'', ''discrepancies'', ''inconsistency'', ''inconsistencies'',
      ''error'', ''errors'', ''mismatch'', ''mismatches'', ''wrong'', ''incorrect'',
      ''validate'', ''validation'', ''verify'', ''verification'', ''check'']"

definition query_needs_discrepancy_check :: "string \<Rightarrow> bool" where
  "query_needs_discrepancy_check q =
     list_ex (\<lambda>keyword. is_substring keyword (lower q)) discrepancy_keywords"

definition create_plan :: "string \<Rightarrow> Plan" where
  "create_plan q =
     (let sts = (if query_needs_discrepancy_check q
                 then copy_template ''query_with_discrepancy''
                 else copy_template ''standard_query'')
      in \<lparr>query = q, steps = customize_plan sts q\<rparr>)"

section \<open>Schema agent (sub_agents/schema_agent.py)\<close>

text \<open>
  A dictionary is an association list in insertion order, read with \<^const>\<open>map_of\<close> and
  written with \<^const>\<open>AList.update\<close>. The schema cache maps a schema to its tables and a
  table to its columns.
\<close>

type_synonym table_dict = "(string \<times> string list) list"

record SchemaAgent =
  schemas :: "string list"
  schema_cache :: "(string \<times> table_dict) list"

record schema_info =
  available_schemas :: "string list"
  selected_schema :: "string option"
  selected_tables :: "string list"
  table_columns :: "(string \<times> string list) list"

text \<open>
  An optional character in front of a continuation (\<open>s?\<close>, \<open>['\"]?\<close>): greedy, so the
  character is taken first, and the match without it is tried when the continuation fails
  after it.
\<close>

definition opt_char :: "(char \<Rightarrow> bool) \<Rightarrow> (string \<Rightarrow> 'a option) \<Rightarrow> string \<Rightarrow> 'a option" where
  "opt_char P k s =
     (case s of
        [] \<Rightarrow> k []
      | c # cs \<Rightarrow>
          (if P c then (case k cs of Some x \<Rightarrow> Some x | None \<Rightarrow> k (c # cs))
           else k (c # cs)))"

text \<open>A literal followed by a continuation.\<close>

definition after_lit :: "string \<Rightarrow> (string \<Rightarrow> 'a option) \<Rightarrow> string \<Rightarrow> 'a option" where
  "after_lit l k s = (case lit l s of None \<Rightarrow> None | Some r \<Rightarrow> k r)"

text \<open>
  \<open>['\"]?([a-zA-Z0-9_]+)['\"]?\<close>; the trailing optional quote only moves the end of
  the match.
\<close>

definition skip_quote :: "string \<Rightarrow> string" where
  "skip_quote s = (case s of [] \<Rightarrow> [] | c # cs \<Rightarrow> if is_quote c then cs else c # cs)"

definition quoted_word :: matcher where
  "quoted_word s =
     (case opt_char is_quote word_group s of
        None \<Rightarrow> None
      | Some (g, r) \<Rightarrow> Some (g, skip_quote r))"

text \<open>
  \<open>in schema ['\"]?([a-zA-Z0-9_]+)['\"]?\<close>, \<open>from schema ...\<close> and \<open>database ...\<close>.
\<close>

definition schema_patterns :: "matcher list" where
  "schema_patterns =
     [after_lit ''in schema '' quoted_word,
      after_lit ''from schema '' quoted_word,
      after_lit ''database '' quoted_word]"

text \<open>
  The loop of \<open>_extract_schema_from_query\<close>: for each pattern in turn, its first match in
  the text; the matched name is returned when it is a known schema, and otherwise the next
  pattern is tried.
\<close>

fun first_known :: "matcher list \<Rightarrow> string \<Rightarrow> string list \<Rightarrow> string option" where
  "first_known [] q known = None"
| "first_known (p # ps) q known =
     (case re_search p q of
        Some schema_name \<Rightarrow>
          (if schema_name \<in> set known then Some schema_name else first_known ps q known)
      | None \<Rightarrow> first_known ps q known)"

definition extract_schema_from_query :: "SchemaAgent \<Rightarrow> string \<Rightarrow> string option" where
  "extract_schema_from_query a q = first_known schema_patterns (lower q) (schemas a)"

text \<open>
  \<open>from ['\"]?([a-zA-Z0-9_]+)['\"]?\<close>, \<open>table[s]? ['\"]?([a-zA-Z0-9_]+)['\"]?\<close> and
  \<open>in ['\"]?([a-zA-Z0-9_]+)['\"]? table\<close>.
\<close>

definition table_patterns :: "matcher list" where
  "table_patterns =
     [after_lit ''from '' quoted_word,
      after_lit ''table'' (opt_char (\<lambda>c. c = CHR ''s'') (after_lit '' '' quoted_word)),
      after_lit ''in ''
        (opt_char is_quote
           (\<lambda>s. case word_group s of
                  None \<Rightarrow> None
                | Some (g, r) \<Rightarrow>
                    (case opt_char is_quote (lit '' table'') r of
                       None \<Rightarrow> None
                     | Some r' \<Rightarrow> Some (g, r'))))]"

text \<open>The table exists in at least one schema of the cache.\<close>

definition table_known :: "SchemaAgent \<Rightarrow> string \<Rightarrow> bool" where
  "table_known a table_name =
     list_ex (\<lambda>schema. case map_of (schema_cache a) schema of
                          None \<Rightarrow> False
                        | Some td \<Rightarrow> table_name \<in> set (map fst td))
       (schemas a)"

definition extract_tables_from_query :: "SchemaAgent \<Rightarrow> string \<Rightarrow> string list" where
  "extract_tables_from_query a q =
     concat (map (\<lambda>pattern. filter (table_known a) (re_finditer pattern (lower q)))
               table_patterns)"

subsection \<open>Scored inference\<close>

text \<open>
  \<open>re.findall(r'\b[a-zA-Z0-9_]{3,}\b', query_lower)\<close>: on ASCII text a match starts where
  a run of word characters starts, takes the whole run and needs three characters, so the
  matches are the maximal runs of word characters of length at least 3.
\<close>

function word_runs :: "string \<Rightarrow> string list" where
  "word_runs [] = []"
| "word_runs (c # cs) =
     (if is_word_char c
      then (c # takeWhile is_word_char cs) # word_runs (dropWhile is_word_char cs)
      else word_runs cs)"
  by pat_completeness auto
termination
  by (relation "measure length") (auto simp: length_dropWhile_le less_Suc_eq_le)

definition findall_words :: "string \<Rightarrow> string list" where
  "findall_words s = filter (\<lambda>w. 3 \<le> length w) (word_runs s)"

definition singular :: "string \<Rightarrow> string" where
  "singular table_lower = (if endswith table_lower ''s'' then butlast table_lower else table_lower)"

definition plural :: "string \<Rightarrow> string" where
  "plural table_lower = (if \<not> endswith table_lower ''s'' then table_lower @ ''s'' else table_lower)"

text \<open>
  Scores are Python floats in the source and rationals here. The scores that occur are
  \<open>1.0\<close>, \<open>0.9\<close> and \<open>(m / n) * 0.8\<close> for string lengths \<open>m \<le> n\<close>; on these the float
  operations keep order and equality of the exact values and \<open>(5 / 8) * 0.8\<close> rounds to
  \<open>0.5\<close>, so comparing the rationals decides every comparison the source makes.
  The division cannot fail: a word has at least three characters.
\<close>

definition similarity :: "string \<Rightarrow> string \<Rightarrow> rat" where
  "similarity word table_lower =
     of_nat (length word) / of_nat (max (length word) (length table_lower))"

text \<open>
  One round of the loop over the words; the accumulator is the entry of the table in
  \<open>table_scores\<close>, \<open>None\<close> while there is none.
\<close>

definition partial_step :: "string \<Rightarrow> string \<Rightarrow> rat option \<Rightarrow> rat option" where
  "partial_step table_lower word acc =
     (if is_substring table_lower word \<or> is_substring word table_lower
      then Some (max (case acc of None \<Rightarrow> 0 | Some s \<Rightarrow> s)
                     (similarity word table_lower * (8 / 10)))
      else acc)"

definition table_score :: "string list \<Rightarrow> string \<Rightarrow> rat option" where
  "table_score words table =
     (let table_lower = lower table in
        if table_lower \<in> set words then Some 1
        else if singular table_lower \<in> set words \<or> plural table_lower \<in> set words
        then Some (9 / 10)
        else fold (partial_step table_lower) words None)"

text \<open>The items of \<open>table_scores\<close> as \<open>(score, table)\<close> pairs.\<close>

definition scored_tables :: "string list \<Rightarrow> string list \<Rightarrow> (rat \<times> string) list" where
  "scored_tables words tables =
     List.map_filter (\<lambda>table. map_option (\<lambda>score. (score, table)) (table_score words table))
       tables"

text \<open>
  \<open>sorted(xs, reverse=True)\<close>: descending, and stable (equal elements keep their order).
  Pairs are compared lexicographically, strings by code point.
\<close>

fun insort_desc :: "'a::linorder \<Rightarrow> 'a list \<Rightarrow> 'a list" where
  "insort_desc x [] = [x]"
| "insort_desc x (y # ys) = (if y \<le> x then x # y # ys else y # insort_desc x ys)"

definition sorted_reverse :: "'a::linorder list \<Rightarrow> 'a list" where
  "sorted_reverse xs = foldr insort_desc xs []"

text \<open>
  \<open>available_tables\<close> is the set of the keys of the schema's table dictionary; the result
  does not depend on the order in which a set is enumerated, since the pairs are sorted.
\<close>

definition infer_tables_from_query :: "SchemaAgent \<Rightarrow> string \<Rightarrow> string option \<Rightarrow> string list" where
  "infer_tables_from_query a q schema =
     (case schema of
        None \<Rightarrow> []
      | Some s \<Rightarrow>
          (if s = [] then []
           else (case map_of (schema_cache a) s of
                   None \<Rightarrow> []
                 | Some td \<Rightarrow>
                     (let words = findall_words (lower q);
                          available_tables = remdups (map fst td);
                          sorted_tables = sorted_reverse (scored_tables words available_tables)
                      in take 3 (map snd (filter (\<lambda>(score, table). 1 / 2 \<le> score)
                                            sorted_tables))))))"

section \<open>Results, discrepancy records and the shared context\<close>

text \<open>
  A value of a result row: null, a number or a string. Rows are dictionaries from column
  names to values.
\<close>

datatype dbval = DNull | DInt int | DStr string

type_synonym row = "(string \<times> dbval) list"

text \<open>
  The two dictionaries \<open>execute_query\<close> builds: \<open>{error, sql_query}\<close>, and
  \<open>{columns, data, row_count, truncated, rowcount, sql_query}\<close>.
\<close>

datatype query_result =
    QueryError string string
  | QueryData "string list" "row list" nat bool int string

text \<open>\<open>query_result.get("data", [])\<close> and \<open>query_result.get("error")\<close>.\<close>

fun result_data :: "query_result \<Rightarrow> row list" where
  "result_data (QueryError e sql) = []"
| "result_data (QueryData cols rows n tr rc sql) = rows"

fun result_error :: "query_result \<Rightarrow> string option" where
  "result_error (QueryError e sql) = Some e"
| "result_error (QueryData cols rows n tr rc sql) = None"

text \<open>
  A discrepancy dictionary; a key that a record does not have is \<open>None\<close>. The key
  \<open>value\<close> of a duplicate record can hold a null, which is \<open>Some DNull\<close>.
\<close>

record discrepancy =
  d_type :: string
  d_severity :: string
  d_message :: string
  d_row_indices :: "nat list option"
  d_fields :: "string list option"
  d_value :: "dbval option"
  d_rule_name :: "string option"
  d_details :: "row option"

text \<open>The values the context dictionary holds.\<close>

datatype ctxval =
    CStr string
  | CStrList "string list"
  | CSchemaInfo schema_info
  | CQueryResult query_result
  | CDiscrepancies "discrepancy list"

type_synonym run_context = "(string \<times> ctxval) list"

text \<open>
  What a run does besides returning: additions to the memory (by category), calls of the
  collaborators and of the checks, and statements sent to the database.
\<close>

datatype event = MemoryAdd string | Call string | DbExecute string

subsection \<open>Schema resolution\<close>

text \<open>Python truthiness of an optional string: \<open>None\<close> and \<open>""\<close> are false.\<close>

definition truthy :: "string option \<Rightarrow> bool" where
  "truthy x = (case x of None \<Rightarrow> False | Some s \<Rightarrow> s \<noteq> [])"

text \<open>
  \<open>context.get(k)\<close> where a string, or a list of strings, is expected; an entry of
  another type counts as absent.
\<close>

definition ctx_get_str :: "run_context \<Rightarrow> string \<Rightarrow> string option" where
  "ctx_get_str ctx k = (case map_of ctx k of Some (CStr s) \<Rightarrow> Some s | _ \<Rightarrow> None)"

definition ctx_get_strs :: "run_context \<Rightarrow> string \<Rightarrow> string list" where
  "ctx_get_strs ctx k = (case map_of ctx k of Some (CStrList xs) \<Rightarrow> xs | _ \<Rightarrow> [])"

text \<open>\<open>xs[0]\<close>.\<close>

definition index0 :: "'a list \<Rightarrow> py_error + 'a" where
  "index0 xs = (case xs of [] \<Rightarrow> Inl IndexError | x # rest \<Rightarrow> Inr x)"

text \<open>The loop that fills \<open>result["table_columns"]\<close>.\<close>

definition add_table_columns ::
  "SchemaAgent \<Rightarrow> string option \<Rightarrow> string list \<Rightarrow> (string \<times> string list) list" where
  "add_table_columns a schema tables =
     fold (\<lambda>table tc.
             case schema of
               None \<Rightarrow> tc
             | Some s \<Rightarrow>
                 (case map_of (schema_cache a) s of
                    None \<Rightarrow> tc
                  | Some td \<Rightarrow>
                      (case map_of td table of
                         None \<Rightarrow> tc
                       | Some cols \<Rightarrow> AList.update table cols tc)))
       tables []"

definition get_schema_info ::
  "SchemaAgent \<Rightarrow> string \<Rightarrow> run_context \<Rightarrow> py_error + (schema_info \<times> event list)" where
  "get_schema_info a q ctx =
     (let hint_schema = ctx_get_str ctx ''suggested_schema'';
          suggested_schema =
            (if truthy hint_schema then hint_schema else extract_schema_from_query a q);
          hint_tables = ctx_get_strs ctx ''suggested_tables'';
          suggested_tables =
            (if hint_tables \<noteq> [] then hint_tables else extract_tables_from_query a q)
      in case (if \<not> truthy suggested_schema \<and> schemas a \<noteq> []
               then map_sum id Some (index0 (schemas a))
               else Inr suggested_schema) of
           Inl e \<Rightarrow> Inl e
         | Inr schema \<Rightarrow>
             (let tables = (if suggested_tables = []
                            then infer_tables_from_query a q schema
                            else suggested_tables)
              in Inr (\<lparr>available_schemas = schemas a,
                        selected_schema = schema,
                        selected_tables = tables,
                        table_columns = add_table_columns a schema tables\<rparr>,
                      [MemoryAdd ''schema_selections''])))"

section \<open>Query agent (sub_agents/query_agent.py, utils/db_utils.py)\<close>

text \<open>
  The database is a collaborator: a statement either fails (\<open>Inl\<close>, the text of the
  exception raised by \<open>cursor.execute\<close> or by fetching) or gives a cursor with its
  description, its rows and its row count; closing the cursor may fail as well.
\<close>

record cursor =
  cur_description :: "string list"
  cur_rows :: "dbval list list"
  cur_rowcount :: int
  cur_close_error :: "string option"

text \<open>
  The language model is a collaborator too. \<open>BedrockAgent.generate_sql\<close> catches every
  failure of the model and returns a fallback statement, so it is a total function of the
  request and the schema information (the examples it is given come from the memory).
  \<open>QueryAgent\<close> may be built without it.
\<close>

record QueryAgent =
  qa_execute :: "string \<Rightarrow> string + cursor"
  qa_bedrock_agent :: "(string \<Rightarrow> schema_info option \<Rightarrow> string) option"

text \<open>\<open>dict(zip(columns, row))\<close>.\<close>

definition dict_zip :: "string list \<Rightarrow> dbval list \<Rightarrow> row" where
  "dict_zip columns r = fold (\<lambda>(k, v) d. AList.update k v d) (zip columns r) []"

text \<open>\<open>format_oracle_results(cursor)\<close> with \<open>max_rows = 100\<close>, and the statement added.\<close>

definition format_oracle_results :: "cursor \<Rightarrow> string \<Rightarrow> query_result" where
  "format_oracle_results cur sql =
     (let columns = cur_description cur;
          rows = take 100 (cur_rows cur);
          data = map (dict_zip columns) rows
      in QueryData columns data (length data) (100 \<le> length data) (cur_rowcount cur) sql)"

text \<open>
  Without a Bedrock agent the source calls \<open>_generate_sql_with_rules(user_query,
  schema_info)\<close>; the class defines that method twice and the later definition, which
  takes four arguments, is the one in force, so the call is a \<open>TypeError\<close>.
\<close>

definition generate_sql_query :: "QueryAgent \<Rightarrow> string \<Rightarrow> schema_info option \<Rightarrow> py_error + string" where
  "generate_sql_query qa user_query si =
     (case qa_bedrock_agent qa of
        Some generate_sql \<Rightarrow> Inr (generate_sql user_query si)
      | None \<Rightarrow> Inl TypeError)"

text \<open>
  The statement is generated outside the \<open>try\<close>; everything after it is inside, so a
  failure of the database becomes the \<open>error\<close> entry of the result.
\<close>

definition execute_query ::
  "QueryAgent \<Rightarrow> string \<Rightarrow> run_context \<Rightarrow> py_error + (query_result \<times> event list)" where
  "execute_query qa user_query ctx =
     (let si = (case map_of ctx ''schema_info'' of Some (CSchemaInfo x) \<Rightarrow> Some x | _ \<Rightarrow> None)
      in case generate_sql_query qa user_query si of
           Inl e \<Rightarrow> Inl e
         | Inr sql \<Rightarrow>
             (case qa_execute qa sql of
                Inl msg \<Rightarrow> Inr (QueryError msg sql, [DbExecute sql])
              | Inr cur \<Rightarrow>
                  (case cur_close_error cur of
                     Some msg \<Rightarrow>
                       Inr (QueryError msg sql, [DbExecute sql, MemoryAdd ''executed_queries''])
                   | None \<Rightarrow>
                       Inr (format_oracle_results cur sql,
                            [DbExecute sql, MemoryAdd ''executed_queries'']))))"

section \<open>Discrepancy agent (sub_agents/discrepancy_agent.py)\<close>

text \<open>\<open>str(n)\<close> for numbers and for row values, as the f-strings of the messages use it.\<close>

definition digit_char :: "nat \<Rightarrow> char" where
  "digit_char d = char_of (48 + d)"

function str_nat :: "nat \<Rightarrow> string" where
  "str_nat n = (if n < 10 then [digit_char n] else str_nat (n div 10) @ [digit_char (n mod 10)])"
  by pat_completeness auto
termination
  by (relation "measure id") auto

definition str_int :: "int \<Rightarrow> string" where
  "str_int i = (if i < 0 then ''-'' @ str_nat (nat (- i)) else str_nat (nat i))"

fun str_dbval :: "dbval \<Rightarrow> string" where
  "str_dbval DNull = ''None''"
| "str_dbval (DInt i) = str_int i"
| "str_dbval (DStr s) = s"

text \<open>
  A business rule: the entries of its dictionary that the agent reads. The check function
  of a rule is supplied by the caller.
\<close>

record business_rule =
  r_name :: "string option"
  r_type :: "string option"
  r_severity :: "string option"
  r_message :: "string option"
  r_check_function :: "(row list \<Rightarrow> discrepancy list) option"
  r_sql_query :: "string option"

text \<open>
  The agent: its database, the language model behind
  \<open>BedrockAgent.analyze_discrepancies\<close> (the parsed answer of the model, \<open>[]\<close> when the
  answer is not a list or the model fails), and the rules in registration order.
\<close>

record DiscrepancyAgent =
  da_execute :: "string \<Rightarrow> string + cursor"
  da_bedrock_agent :: "(query_result \<Rightarrow> (string \<times> business_rule) list \<Rightarrow> discrepancy list) option"
  business_rules :: "(string \<times> business_rule) list"

text \<open>\<open>BedrockAgent.analyze_discrepancies\<close>: nothing is asked when there are no rows.\<close>

definition analyze_discrepancies ::
  "(query_result \<Rightarrow> (string \<times> business_rule) list \<Rightarrow> discrepancy list) \<Rightarrow>
   query_result \<Rightarrow> (string \<times> business_rule) list \<Rightarrow> discrepancy list" where
  "analyze_discrepancies llm qr rules = (if result_data qr = [] then [] else llm qr rules)"

subsection \<open>Generic checks\<close>

definition quote_str :: "string \<Rightarrow> string" where
  "quote_str s = [CHR 0x27] @ s @ [CHR 0x27]"

definition null_record :: "nat \<Rightarrow> string \<Rightarrow> discrepancy" where
  "null_record idx field =
     \<lparr>d_type = ''null_value'', d_severity = ''low'',
      d_message = ''Null value detected in field '' @ quote_str field @ '' at row ''
                  @ str_nat (idx + 1),
      d_row_indices = Some [idx], d_fields = Some [field], d_value = None,
      d_rule_name = None, d_details = None\<rparr>"

definition non_critical_fields :: "string list" where
  "non_critical_fields = [''id'', ''created_at'', ''updated_at'', ''notes'', ''description'']"

definition null_checks :: "row list \<Rightarrow> discrepancy list" where
  "null_checks data =
     concat (map (\<lambda>(idx, r).
                    map (\<lambda>(field, v). null_record idx field)
                      (filter (\<lambda>(field, v). lower field \<notin> set non_critical_fields \<and> v = DNull) r))
               (enumerate 0 data))"

definition duplicate_record :: "string \<Rightarrow> dbval \<Rightarrow> nat \<Rightarrow> nat \<Rightarrow> discrepancy" where
  "duplicate_record field v first idx =
     \<lparr>d_type = ''duplicate_value'', d_severity = ''high'',
      d_message = ''Duplicate value '' @ quote_str (str_dbval v) @ '' in field ''
                  @ quote_str field @ '' at rows '' @ str_nat (first + 1) @ '' and ''
                  @ str_nat (idx + 1),
      d_row_indices = Some [first, idx], d_fields = Some [field], d_value = Some v,
      d_rule_name = None, d_details = None\<rparr>"

text \<open>\<open>row.get(field)\<close>: the value, \<open>None\<close> when the row has no such key.\<close>

definition row_get :: "row \<Rightarrow> string \<Rightarrow> dbval" where
  "row_get r field = (case map_of r field of None \<Rightarrow> DNull | Some v \<Rightarrow> v)"

text \<open>
  The inner loop of the duplicate check for one field: \<open>seen\<close> is \<open>seen_values[field]\<close>,
  \<open>idx\<close> the index of the first row still to be scanned.
\<close>

fun duplicate_scan :: "string \<Rightarrow> (dbval \<times> nat) list \<Rightarrow> nat \<Rightarrow> row list \<Rightarrow> discrepancy list" where
  "duplicate_scan field seen idx [] = []"
| "duplicate_scan field seen idx (r # rest) =
     (let v = row_get r field in
        case map_of seen v of
          Some first \<Rightarrow> duplicate_record field v first idx # duplicate_scan field seen (Suc idx) rest
        | None \<Rightarrow> duplicate_scan field (AList.update v idx seen) (Suc idx) rest)"

definition primary_fields :: "string list" where
  "primary_fields = [''id'', ''code'', ''key'']"

definition duplicate_checks :: "row list \<Rightarrow> discrepancy list" where
  "duplicate_checks data =
     concat (map (\<lambda>field.
                    case data of
                      [] \<Rightarrow> []
                    | r0 # rest \<Rightarrow>
                        (if field \<in> set (map fst r0) then duplicate_scan field [] 0 data else []))
               primary_fields)"

definition apply_generic_checks :: "row list \<Rightarrow> discrepancy list" where
  "apply_generic_checks data = null_checks data @ duplicate_checks data"

subsection \<open>Business rules\<close>

definition default :: "'a \<Rightarrow> 'a option \<Rightarrow> 'a" where
  "default d x = (case x of None \<Rightarrow> d | Some v \<Rightarrow> v)"

text \<open>
  \<open>_execute_rule_query\<close>: a failure of the database is logged and the records collected
  so far are returned.
\<close>

definition rule_record :: "business_rule \<Rightarrow> row \<Rightarrow> discrepancy" where
  "rule_record rule r =
     \<lparr>d_type = default ''business_rule'' (r_type rule),
      d_severity = default ''medium'' (r_severity rule),
      d_message = default (''Business rule '' @ quote_str (default ''unnamed'' (r_name rule))
                           @ '' violated'') (r_message rule),
      d_row_indices = None, d_fields = None, d_value = None,
      d_rule_name = Some (default ''unnamed'' (r_name rule)), d_details = Some r\<rparr>"

definition execute_rule_query :: "DiscrepancyAgent \<Rightarrow> business_rule \<Rightarrow> discrepancy list \<times> event list" where
  "execute_rule_query da rule =
     (case r_sql_query rule of
        None \<Rightarrow> ([], [])
      | Some sql \<Rightarrow>
          (if sql = [] then ([], [])
           else (case da_execute da sql of
                   Inl msg \<Rightarrow> ([], [DbExecute sql])
                 | Inr cur \<Rightarrow>
                     (map (\<lambda>r. rule_record rule (dict_zip (cur_description cur) r)) (cur_rows cur),
                      [DbExecute sql]))))"

text \<open>
  The methods \<open>_check_<name>\<close> the class has: both return \<open>[]\<close>.
\<close>

definition native_checks :: "string list" where
  "native_checks = [''price_consistency'', ''inventory_balance'']"

definition apply_rule ::
  "DiscrepancyAgent \<Rightarrow> row list \<Rightarrow> string \<times> business_rule \<Rightarrow> discrepancy list \<times> event list" where
  "apply_rule da data nr =
     (case nr of (rule_name, rule) \<Rightarrow>
        if rule_name \<in> set native_checks then ([], [Call (''_check_'' @ rule_name)])
        else (case r_check_function rule of
                Some f \<Rightarrow> (f data, [Call ''check_function''])
              | None \<Rightarrow>
                  (case r_sql_query rule of
                     Some sql \<Rightarrow> execute_rule_query da rule
                   | None \<Rightarrow> ([], []))))"

definition apply_business_rules ::
  "DiscrepancyAgent \<Rightarrow> row list \<Rightarrow> discrepancy list \<times> event list" where
  "apply_business_rules da data =
     (let rs = map (apply_rule da data) (business_rules da)
      in (concat (map fst rs), concat (map snd rs)))"

subsection \<open>The check\<close>

definition check_discrepancies ::
  "DiscrepancyAgent \<Rightarrow> run_context \<Rightarrow> discrepancy list \<times> event list" where
  "check_discrepancies da ctx =
     (case map_of ctx ''query_result'' of
        Some (CQueryResult qr) \<Rightarrow>
          (let data = result_data qr in
             if data = [] then ([], [])
             else
               (let (ai, ev1) =
                      (case da_bedrock_agent da of
                         Some llm \<Rightarrow>
                           (if business_rules da \<noteq> []
                            then (analyze_discrepancies llm qr (business_rules da),
                                  [Call ''analyze_discrepancies''])
                            else ([], []))
                       | None \<Rightarrow> ([], []));
                    generic = apply_generic_checks data;
                    (business, ev3) = apply_business_rules da data;
                    discrepancies = ai @ generic @ business
                in (discrepancies,
                    ev1 @ [Call ''_apply_generic_checks''] @ [Call ''_apply_business_rules'']
                    @ ev3
                    @ (if discrepancies \<noteq> [] then [MemoryAdd ''discrepancies''] else []))))
      | _ \<Rightarrow> ([], []))"

section \<open>The agent (agent.py)\<close>

record SQLAgent =
  schema_agent :: SchemaAgent
  query_agent :: QueryAgent
  discrepancy_agent :: DiscrepancyAgent

text \<open>
  The loop of \<open>_execute_plan\<close> over the steps: the context and the events so far are
  threaded through; an exception of a step ends the run.
\<close>

fun run_steps ::
  "SQLAgent \<Rightarrow> string \<Rightarrow> PlanStep list \<Rightarrow> run_context \<Rightarrow> event list \<Rightarrow>
   py_error + (run_context \<times> event list)" where
  "run_steps ag user_query [] ctx evs = Inr (ctx, evs)"
| "run_steps ag user_query (step # rest) ctx evs =
     (if agent step = ''schema'' then
        (case get_schema_info (schema_agent ag) user_query ctx of
           Inl e \<Rightarrow> Inl e
         | Inr (si, ev) \<Rightarrow>
             run_steps ag user_query rest
               (AList.update ''schema_info'' (CSchemaInfo si) ctx) (evs @ ev))
      else if agent step = ''query'' then
        (case execute_query (query_agent ag) user_query ctx of
           Inl e \<Rightarrow> Inl e
         | Inr (qr, ev) \<Rightarrow>
             run_steps ag user_query rest
               (AList.update ''query_result'' (CQueryResult qr) ctx) (evs @ ev))
      else if agent step = ''discrepancy'' then
        (case check_discrepancies (discrepancy_agent ag) ctx of
           (ds, ev) \<Rightarrow>
             run_steps ag user_query rest
               (AList.update ''discrepancies'' (CDiscrepancies ds) ctx) (evs @ ev))
      else run_steps ag user_query rest ctx evs)"

text \<open>The dictionary \<open>_execute_plan\<close> returns; an absent \<open>query_result\<close> is \<open>{}\<close>.\<close>

record agent_result =
  res_result :: "query_result option"
  res_discrepancies :: "discrepancy list"
  res_schema_used :: "string option"
  res_tables_used :: "string list"
  res_plan :: pyval

definition ctx_schema_info :: "run_context \<Rightarrow> schema_info option" where
  "ctx_schema_info ctx = (case map_of ctx ''schema_info'' of Some (CSchemaInfo si) \<Rightarrow> Some si | _ \<Rightarrow> None)"

definition execute_plan ::
  "SQLAgent \<Rightarrow> Plan \<Rightarrow> string \<Rightarrow> py_error + (agent_result \<times> event list)" where
  "execute_plan ag p user_query =
     (case run_steps ag user_query (steps p) [(''user_query'', CStr user_query)] [] of
        Inl e \<Rightarrow> Inl e
      | Inr (ctx, evs) \<Rightarrow>
          Inr (\<lparr>res_result = (case map_of ctx ''query_result'' of
                                Some (CQueryResult qr) \<Rightarrow> Some qr | _ \<Rightarrow> None),
                res_discrepancies = (case map_of ctx ''discrepancies'' of
                                       Some (CDiscrepancies ds) \<Rightarrow> ds | _ \<Rightarrow> []),
                res_schema_used = (case ctx_schema_info ctx of
                                     None \<Rightarrow> None | Some si \<Rightarrow> selected_schema si),
                res_tables_used = (case ctx_schema_info ctx of
                                     None \<Rightarrow> [] | Some si \<Rightarrow> selected_tables si),
                res_plan = to_dict p\<rparr>,
               evs @ [MemoryAdd ''query_contexts'']))"

text \<open>\<open>SQLAgent.query\<close>.\<close>

definition agent_query :: "SQLAgent \<Rightarrow> string \<Rightarrow> py_error + (agent_result \<times> event list)" where
  "agent_query ag user_query =
     (case execute_plan ag (create_plan user_query) user_query of
        Inl e \<Rightarrow> Inl e
      | Inr (res, evs) \<Rightarrow> Inr (res, MemoryAdd ''user_queries'' # evs))"

section \<open>Example inputs\<close>

text \<open>
  A discrepancy agent whose language model and whose one rule both report something
  whenever they are asked.
\<close>

definition example_discrepancy_agent :: DiscrepancyAgent where
  "example_discrepancy_agent =
     \<lparr>da_execute = (\<lambda>sql. Inl ''ORA-00942: table or view does not exist''),
      da_bedrock_agent = Some (\<lambda>qr rules. [null_record 0 ''price'']),
      business_rules =
        [(''stock'', \<lparr>r_name = Some ''Stock'', r_type = None, r_severity = None,
                       r_message = None,
                       r_check_function = Some (\<lambda>data. [null_record 0 ''stock'']),
                       r_sql_query = None\<rparr>)]\<rparr>"

text \<open>A catalog with one schema and two tables, and one with two schemas.\<close>

definition sales_schema_agent :: SchemaAgent where
  "sales_schema_agent =
     \<lparr>schemas = [''SALES''],
      schema_cache = [(''SALES'', [(''CUSTOMERS'', [''ID'', ''NAME'']), (''ORDERS'', [''ID''])])]\<rparr>"

definition example_schema_agent :: SchemaAgent where
  "example_schema_agent =
     \<lparr>schemas = [''app'', ''hr''],
      schema_cache = [(''app'', [(''orders'', [''id''])]),
                      (''hr'', [(''employees'', [''id'', ''name''])])]\<rparr>"

text \<open>An agent whose database rejects every statement.\<close>

definition example_agent :: SQLAgent where
  "example_agent =
     \<lparr>schema_agent = example_schema_agent,
      query_agent = \<lparr>qa_execute = (\<lambda>sql. Inl ''ORA-00942: table or view does not exist''),
                      qa_bedrock_agent = Some (\<lambda>user_query si. ''SELECT * FROM DUAL'')\<rparr>,
      discrepancy_agent = example_discrepancy_agent\<rparr>"

section \<open>Reference definitions\<close>

text \<open>
  The definitions of this section are not translated from the source. They are the
  vocabulary in which the properties below are stated, and the readings of the
  specification that the source is compared with.
\<close>

text \<open>The schema, and the tables, of a resolution.\<close>

definition resolved_schema :: "SchemaAgent \<Rightarrow> string \<Rightarrow> run_context \<Rightarrow> py_error + string option" where
  "resolved_schema a q ctx = map_sum id (\<lambda>(r, ev). selected_schema r) (get_schema_info a q ctx)"

definition resolved_tables :: "SchemaAgent \<Rightarrow> string \<Rightarrow> run_context \<Rightarrow> py_error + string list" where
  "resolved_tables a q ctx = map_sum id (\<lambda>(r, ev). selected_tables r) (get_schema_info a q ctx)"

text \<open>
  The target schema as the specification words it: the hint only when it is a known
  schema, otherwise the extracted name, otherwise the first known schema.
\<close>

definition spec_target_schema :: "SchemaAgent \<Rightarrow> string \<Rightarrow> string option \<Rightarrow> string option" where
  "spec_target_schema a q hint =
     (let fallback = (case extract_schema_from_query a q of
                        Some s \<Rightarrow> Some s
                      | None \<Rightarrow> (case schemas a of [] \<Rightarrow> None | s # rest \<Rightarrow> Some s))
      in case hint of
           None \<Rightarrow> fallback
         | Some h \<Rightarrow> if h \<in> set (schemas a) then Some h else fallback)"

text \<open>
  The ranking as the specification words it: the scored tables in catalog order, sorted by
  descending score with a stable sort, those of score at least 0.5, the first three.
\<close>

definition spec_infer_tables :: "string list \<Rightarrow> string list \<Rightarrow> string list" where
  "spec_infer_tables words tables =
     take 3 (map snd (filter (\<lambda>(score, table). 1 / 2 \<le> score)
                        (sort_key (\<lambda>(score, table). - score) (scored_tables words tables))))"

text \<open>
  The partial-overlap score as the specification words it: over the words that contain
  the name or are contained in it, the greatest ratio of the shorter length to the longer
  one, times 0.8.
\<close>

definition spec_partial_score :: "string list \<Rightarrow> string \<Rightarrow> rat option" where
  "spec_partial_score words table =
     (let table_lower = lower table;
          ms = filter (\<lambda>w. is_substring table_lower w \<or> is_substring w table_lower) words
      in if ms = [] then None
         else Some (Max (set (map (\<lambda>w. of_nat (min (length w) (length table_lower))
                                         / of_nat (max (length w) (length table_lower))
                                         * (8 / 10)) ms))))"

text \<open>The position of the first occurrence of a value in a list that contains it.\<close>

definition first_index :: "'a \<Rightarrow> 'a list \<Rightarrow> nat" where
  "first_index v xs = length (takeWhile (\<lambda>x. x \<noteq> v) xs)"

text \<open>The values of a field down the rows, as \<open>row.get(field)\<close> reads them.\<close>

definition field_values :: "string \<Rightarrow> row list \<Rightarrow> dbval list" where
  "field_values field data = map (\<lambda>r. row_get r field) data"

text \<open>
  One duplicate record for every row whose value occurs in an earlier row, with the index
  of the first row that has the value.
\<close>

definition expected_duplicates :: "string \<Rightarrow> row list \<Rightarrow> discrepancy list" where
  "expected_duplicates field data =
     (let vals = field_values field data in
        map (\<lambda>i. duplicate_record field (vals ! i) (first_index (vals ! i) vals) i)
          (filter (\<lambda>i. vals ! i \<in> set (take i vals)) [0..<length vals]))"

text \<open>The same as the specification words it: only a value that is not null counts.\<close>

definition spec_duplicates :: "string \<Rightarrow> row list \<Rightarrow> discrepancy list" where
  "spec_duplicates field data =
     (let vals = field_values field data in
        map (\<lambda>i. duplicate_record field (vals ! i) (first_index (vals ! i) vals) i)
          (filter (\<lambda>i. vals ! i \<noteq> DNull \<and> vals ! i \<in> set (take i vals)) [0..<length vals]))"

definition spec_duplicate_checks :: "row list \<Rightarrow> discrepancy list" where
  "spec_duplicate_checks data =
     concat (map (\<lambda>field.
                    case data of
                      [] \<Rightarrow> []
                    | r0 # rest \<Rightarrow>
                        (if field \<in> set (map fst r0) then spec_duplicates field data else []))
               [''id'', ''code'', ''key''])"

text \<open>
  What a context holds while the database rejects every statement: no query result, or a
  query result that carries the error of the database for its statement; and no finding.
\<close>

definition failed_result :: "QueryAgent \<Rightarrow> run_context \<Rightarrow> bool" where
  "failed_result qa ctx =
     (case map_of ctx ''query_result'' of
        Some (CQueryResult qr) \<Rightarrow>
          (case qr of
             QueryError msg sql \<Rightarrow> qa_execute qa sql = Inl msg
           | QueryData cols rows n tr rc sql \<Rightarrow> False)
      | _ \<Rightarrow> False)"

definition no_findings :: "run_context \<Rightarrow> bool" where
  "no_findings ctx =
     (case map_of ctx ''discrepancies'' of Some (CDiscrepancies ds) \<Rightarrow> ds = [] | _ \<Rightarrow> True)"

section \<open>Properties of strings\<close>

lemma startswith_iff: "startswith s p \<longleftrightarrow> (\<exists>r. s = p @ r)"
  by (induction s p rule: startswith.induct) auto

lemma is_substring_iff: "is_substring k s \<longleftrightarrow> (\<exists>a b. s = a @ k @ b)"
proof (induction s)
  case Nil
  then show ?case by auto
next
  case (Cons c cs)
  show ?case
  proof
    assume "is_substring k (c # cs)"
    then consider "startswith (c # cs) k" | "is_substring k cs" by auto
    then show "\<exists>a b. c # cs = a @ k @ b"
    proof cases
      case 1
      then obtain r where "c # cs = k @ r" by (auto simp: startswith_iff)
      then have "c # cs = [] @ k @ r" by simp
      then show ?thesis by blast
    next
      case 2
      then obtain a b where "cs = a @ k @ b" using Cons.IH by auto
      then have "c # cs = (c # a) @ k @ b" by simp
      then show ?thesis by blast
    qed
  next
    assume "\<exists>a b. c # cs = a @ k @ b"
    then obtain a b where ab: "c # cs = a @ k @ b" by blast
    show "is_substring k (c # cs)"
    proof (cases a)
      case Nil
      then have "startswith (c # cs) k" using ab by (auto simp: startswith_iff)
      then show ?thesis by simp
    next
      case (Cons a0 a')
      then have "cs = a' @ k @ b" using ab by simp
      then have "is_substring k cs" using Cons.IH by blast
      then show ?thesis by simp
    qed
  qed
qed

section \<open>Properties of plans\<close>

lemma step_from_dict_to_dict: "step_from_dict (step_to_dict s) = Inr s"
  by (simp add: step_from_dict_def step_to_dict_def)

lemma steps_from_list_to_dict: "steps_from_list (map step_to_dict ss) = Inr ss"
  by (induction ss) (simp_all add: step_from_dict_to_dict)

text \<open>
  C10. Serialising a plan with \<open>to_dict\<close> and reading it back with \<open>from_dict\<close> succeeds
  and gives the plan back: the same query, and the same steps one by one in agent, action,
  description and params.
\<close>

theorem plan_roundtrip: "from_dict (to_dict p) = Inr p"
  by (simp add: from_dict_def to_dict_def steps_from_list_to_dict)

section \<open>Properties of the planner\<close>

lemma agent_set_schema_param: "map agent (set_schema_param k v sts) = map agent sts"
  by (induction sts) (auto simp: set_schema_param_def)

lemma agent_customize_plan: "map agent (customize_plan sts q) = map agent sts"
  by (auto simp: customize_plan_def Let_def agent_set_schema_param split: option.splits)

lemma needs_discrepancy_iff:
  "query_needs_discrepancy_check q \<longleftrightarrow>
   (\<exists>keyword\<in>set discrepancy_keywords. \<exists>a b. lower q = a @ keyword @ b)"
  by (simp add: query_needs_discrepancy_check_def list_ex_iff is_substring_iff)

lemma agents_standard: "map agent (copy_template ''standard_query'') = [''schema'', ''query'']"
  by (simp add: copy_template_def templates_def standard_query_def)

lemma agents_discrepancy:
  "map agent (copy_template ''query_with_discrepancy'') = [''schema'', ''query'', ''discrepancy'']"
  by (simp add: copy_template_def templates_def query_with_discrepancy_def)

text \<open>
  C7. For every request, \<open>create_plan\<close> returns the three stages schema, query,
  discrepancy, in that order, when one of the discrepancy keywords occurs in the
  lower-cased request as a substring, and the two stages schema, query otherwise.
\<close>

theorem create_plan_stages:
  "map agent (steps (create_plan q)) =
     (if (\<exists>keyword\<in>set discrepancy_keywords. \<exists>a b. lower q = a @ keyword @ b)
      then [''schema'', ''query'', ''discrepancy''] else [''schema'', ''query''])"
  unfolding needs_discrepancy_iff [symmetric]
  by (simp add: create_plan_def Let_def agent_customize_plan agents_standard agents_discrepancy)

theorem create_plan_stages_witness:
  "map agent (steps (create_plan ''Please VERIFY the orders'')) =
     [''schema'', ''query'', ''discrepancy'']
   \<and> map agent (steps (create_plan ''list all orders'')) = [''schema'', ''query'']"
proof -
  have "query_needs_discrepancy_check ''Please VERIFY the orders''"
    by code_simp
  then have a: "\<exists>keyword\<in>set discrepancy_keywords.
                  \<exists>a b. lower ''Please VERIFY the orders'' = a @ keyword @ b"
    by (simp add: needs_discrepancy_iff)
  have "\<not> query_needs_discrepancy_check ''list all orders''"
    by code_simp
  then have b: "\<not> (\<exists>keyword\<in>set discrepancy_keywords.
                      \<exists>a b. lower ''list all orders'' = a @ keyword @ b)"
    by (simp add: needs_discrepancy_iff)
  show ?thesis
    using create_plan_stages [of "''Please VERIFY the orders''"]
      create_plan_stages [of "''list all orders''"] a b
    by simp
qed

section \<open>Properties of the discrepancy check\<close>

text \<open>
  C9. When the context has no query result, or the data of its query result is empty, the
  check returns the empty list and nothing happens besides: the language model is not
  asked, the generic checks and the business rules are not called, nothing is sent to the
  database and nothing is added to the memory.
\<close>

theorem check_discrepancies_no_data:
  "map_of ctx ''query_result'' = None \<or>
   (\<exists>qr. map_of ctx ''query_result'' = Some (CQueryResult qr) \<and> result_data qr = []) \<Longrightarrow>
   check_discrepancies da ctx = ([], [])"
  by (auto simp: check_discrepancies_def)

theorem check_discrepancies_no_data_witness:
  "check_discrepancies example_discrepancy_agent [(''user_query'', CStr ''check orders'')] = ([], [])
   \<and> check_discrepancies example_discrepancy_agent
        [(''user_query'', CStr ''check orders''),
         (''query_result'', CQueryResult (QueryData [''ID''] [] 0 False 0 ''SELECT ID FROM ORDERS''))]
      = ([], [])
   \<and> check_discrepancies example_discrepancy_agent
        [(''query_result'', CQueryResult (QueryError ''ORA-00942'' ''SELECT ID FROM ORDERS''))]
      = ([], [])"
proof -
  have 1: "map_of [(''user_query'', CStr ''check orders'')] ''query_result'' = None"
    by simp
  have 2: "\<exists>qr. map_of [(''user_query'', CStr ''check orders''),
                         (''query_result'',
                          CQueryResult (QueryData [''ID''] [] 0 False 0 ''SELECT ID FROM ORDERS''))]
                  ''query_result'' = Some (CQueryResult qr) \<and> result_data qr = []"
    by simp
  have 3: "\<exists>qr. map_of [(''query_result'',
                          CQueryResult (QueryError ''ORA-00942'' ''SELECT ID FROM ORDERS''))]
                  ''query_result'' = Some (CQueryResult qr) \<and> result_data qr = []"
    by simp
  show ?thesis
    using check_discrepancies_no_data [OF disjI1 [OF 1]]
      check_discrepancies_no_data [OF disjI2 [OF 2]]
      check_discrepancies_no_data [OF disjI2 [OF 3]]
    by blast
qed

section \<open>Properties of sorting and scoring\<close>

lemma set_insort_desc: "set (insort_desc x ys) = insert x (set ys)"
  by (induction ys) auto

lemma set_sorted_reverse: "set (sorted_reverse xs) = set xs"
  by (induction xs) (simp_all add: sorted_reverse_def set_insort_desc)

lemma distinct_insort_desc: "distinct (insort_desc x ys) \<longleftrightarrow> x \<notin> set ys \<and> distinct ys"
  by (induction ys) (auto simp: set_insort_desc)

lemma distinct_sorted_reverse: "distinct (sorted_reverse xs) \<longleftrightarrow> distinct xs"
  by (induction xs) (simp_all add: sorted_reverse_def distinct_insort_desc set_sorted_reverse [unfolded sorted_reverse_def])

lemma descending_insort_desc:
  "sorted_wrt (\<lambda>a b. b \<le> a) ys \<Longrightarrow> sorted_wrt (\<lambda>a b. b \<le> a) (insort_desc x ys)"
  by (induction ys) (auto simp: set_insort_desc)

lemma descending_sorted_reverse: "sorted_wrt (\<lambda>a b. b \<le> a) (sorted_reverse xs)"
  by (induction xs) (simp_all add: sorted_reverse_def descending_insort_desc)

lemma descending_unique:
  assumes "sorted_wrt (\<lambda>a b. b \<le> a) xs" "distinct xs" "set xs = A"
  shows "xs = rev (sorted_list_of_set A)"
proof -
  have "sorted (rev xs)" using assms(1) by (simp add: sorted_wrt_rev)
  moreover have "distinct (rev xs)" using assms(2) by simp
  moreover have "set (rev xs) = A" using assms(3) by simp
  ultimately have "rev xs = sorted_list_of_set A"
    by (metis sorted_list_of_set.idem_if_sorted_distinct)
  then show ?thesis by (metis rev_rev_ident)
qed

lemma filter_sorted_reverse:
  assumes "distinct xs"
  shows "filter P (sorted_reverse xs) = rev (sorted_list_of_set {x \<in> set xs. P x})"
proof (rule descending_unique)
  show "sorted_wrt (\<lambda>a b. b \<le> a) (filter P (sorted_reverse xs))"
    by (rule sorted_wrt_filter) (rule descending_sorted_reverse)
  show "distinct (filter P (sorted_reverse xs))"
    using assms by (simp add: distinct_sorted_reverse)
  show "set (filter P (sorted_reverse xs)) = {x \<in> set xs. P x}"
    by (simp add: set_sorted_reverse)
qed

lemma set_scored_tables:
  "set (scored_tables ws tables) = {(sc, t). t \<in> set tables \<and> table_score ws t = Some sc}"
  by (force simp: scored_tables_def List.map_filter_def)

lemma snd_scored_tables:
  "map snd (scored_tables ws tables) = filter (\<lambda>t. table_score ws t \<noteq> None) tables"
  by (induction tables) (auto simp: scored_tables_def List.map_filter_def)

lemma distinct_scored_tables:
  "distinct tables \<Longrightarrow> distinct (map snd (scored_tables ws tables))"
  by (simp add: snd_scored_tables)

section \<open>Properties of the duplicate scan\<close>

lemma first_index_append_in: "v \<in> set pre \<Longrightarrow> first_index v (pre @ xs) = first_index v pre"
  by (induction pre) (auto simp: first_index_def)

lemma first_index_append_notin: "v \<notin> set pre \<Longrightarrow> first_index v (pre @ v # xs) = length pre"
  by (induction pre) (auto simp: first_index_def)

lemma duplicate_scan_inv:
  assumes "\<And>v. map_of seen v = (if v \<in> set pre then Some (first_index v pre) else None)"
  shows "duplicate_scan f seen (length pre) rows =
         map (\<lambda>i. duplicate_record f ((pre @ field_values f rows) ! i)
                    (first_index ((pre @ field_values f rows) ! i) (pre @ field_values f rows)) i)
           (filter (\<lambda>i. (pre @ field_values f rows) ! i \<in> set (take i (pre @ field_values f rows)))
              [length pre..<length pre + length rows])"
  using assms
proof (induction rows arbitrary: seen pre)
  case Nil
  then show ?case by simp
next
  case (Cons r rest)
  define v where "v = row_get r f"
  define vals where "vals = pre @ field_values f (r # rest)"
  have vals_eq: "vals = (pre @ [v]) @ field_values f rest"
    by (simp add: vals_def v_def field_values_def)
  have range: "[length pre..<length pre + length (r # rest)] =
               length pre # [length (pre @ [v])..<length (pre @ [v]) + length rest]"
    by (subst upt_rec) simp
  have at: "vals ! length pre = v" by (simp add: vals_eq nth_append)
  have tk: "take (length pre) vals = pre" by (simp add: vals_eq)
  show ?case
  proof (cases "v \<in> set pre")
    case True
    have inv': "\<And>w. map_of seen w =
                 (if w \<in> set (pre @ [v]) then Some (first_index w (pre @ [v])) else None)"
      using Cons.prems True by (auto simp: first_index_append_in)
    have fi: "first_index v vals = first_index v pre"
      unfolding vals_def using True by (rule first_index_append_in)
    have "duplicate_scan f seen (length pre) (r # rest) =
          duplicate_record f v (first_index v pre) (length pre)
          # duplicate_scan f seen (length (pre @ [v])) rest"
      using Cons.prems [of v] True by (simp add: v_def Let_def)
    also have "duplicate_scan f seen (length (pre @ [v])) rest =
          map (\<lambda>i. duplicate_record f (vals ! i) (first_index (vals ! i) vals) i)
            (filter (\<lambda>i. vals ! i \<in> set (take i vals))
               [length (pre @ [v])..<length (pre @ [v]) + length rest])"
      using Cons.IH [OF inv'] unfolding vals_eq .
    finally show ?thesis
      unfolding vals_def [symmetric] range using True by (simp add: at tk fi)
  next
    case False
    have inv': "\<And>w. map_of (AList.update v (length pre) seen) w =
                 (if w \<in> set (pre @ [v]) then Some (first_index w (pre @ [v])) else None)"
      using Cons.prems False
      by (auto simp: update_conv' first_index_append_in first_index_append_notin [where xs = "[]"])
    have "duplicate_scan f seen (length pre) (r # rest) =
          duplicate_scan f (AList.update v (length pre) seen) (length (pre @ [v])) rest"
      using Cons.prems [of v] False by (simp add: v_def Let_def)
    also have "\<dots> =
          map (\<lambda>i. duplicate_record f (vals ! i) (first_index (vals ! i) vals) i)
            (filter (\<lambda>i. vals ! i \<in> set (take i vals))
               [length (pre @ [v])..<length (pre @ [v]) + length rest])"
      using Cons.IH [OF inv'] unfolding vals_eq .
    finally show ?thesis
      unfolding vals_def [symmetric] range using False by (simp add: at tk)
  qed
qed

lemma duplicate_scan_eq:
  "duplicate_scan f [] 0 data =
     map (\<lambda>i. duplicate_record f (field_values f data ! i)
                (first_index (field_values f data ! i) (field_values f data)) i)
       (filter (\<lambda>i. field_values f data ! i \<in> set (take i (field_values f data)))
          [0..<length data])"
  using duplicate_scan_inv [of "[]" "[]" f data] by simp

lemma duplicate_scan_expected: "duplicate_scan f [] 0 data = expected_duplicates f data"
  using duplicate_scan_eq [of f data] by (simp add: expected_duplicates_def Let_def field_values_def)

text \<open>
  C5 (amended). For each of the fields \<open>id\<close>, \<open>code\<close>, \<open>key\<close> that is a key of the first row,
  the rows are scanned in order and a \<open>duplicate_value\<close> record of severity \<open>high\<close>,
  carrying the index of the first row with the value, the index of the current row, the
  field and the value, is emitted exactly for the rows whose value for the field equals
  the value of an earlier row; the value of a row without the key is null, and a null that
  repeats is reported like any other value. The rows \<open>[{id: 1}, {id: 2}, {id: 1}]\<close> give
  exactly one record, with row indices \<open>[0, 2]\<close>.
\<close>

theorem duplicate_checks_emitted:
  "duplicate_checks data =
     concat (map (\<lambda>field. case data of
                             [] \<Rightarrow> []
                           | r0 # rest \<Rightarrow>
                               (if field \<in> set (map fst r0) then expected_duplicates field data
                                else []))
               [''id'', ''code'', ''key''])
   \<and> apply_generic_checks [[(''id'', DInt 1)], [(''id'', DInt 2)], [(''id'', DInt 1)]] =
       [duplicate_record ''id'' (DInt 1) 0 2]
   \<and> d_type (duplicate_record field v first idx) = ''duplicate_value''
   \<and> d_severity (duplicate_record field v first idx) = ''high''
   \<and> d_row_indices (duplicate_record field v first idx) = Some [first, idx]
   \<and> d_fields (duplicate_record field v first idx) = Some [field]
   \<and> d_value (duplicate_record field v first idx) = Some v"
proof -
  have 1: "duplicate_checks data =
     concat (map (\<lambda>field. case data of
                             [] \<Rightarrow> []
                           | r0 # rest \<Rightarrow>
                               (if field \<in> set (map fst r0) then expected_duplicates field data
                                else []))
               [''id'', ''code'', ''key''])"
  proof (cases data)
    case Nil
    then show ?thesis by (simp add: duplicate_checks_def primary_fields_def)
  next
    case (Cons r0 rest)
    show ?thesis
      unfolding duplicate_checks_def primary_fields_def Cons list.case duplicate_scan_expected
      by (rule refl)
  qed
  have 2: "apply_generic_checks [[(''id'', DInt 1)], [(''id'', DInt 2)], [(''id'', DInt 1)]] =
       [duplicate_record ''id'' (DInt 1) 0 2]"
    by code_simp
  show ?thesis using 1 2 by (simp add: duplicate_record_def)
qed

text \<open>
  The claim as stated does not hold: two rows whose \<open>id\<close> is null give a duplicate
  record, where the reading of the specification gives none.
\<close>

theorem duplicate_checks_null_counterexample:
  "duplicate_checks [[(''id'', DNull)], [(''id'', DNull)]] = [duplicate_record ''id'' DNull 0 1]
   \<and> spec_duplicate_checks [[(''id'', DNull)], [(''id'', DNull)]] = []"
  by code_simp

theorem duplicate_checks_emitted_witness:
  "concat (map (\<lambda>field. case [[(''code'', DStr ''A'')], [(''code'', DStr ''B'')], [],
                                 [(''code'', DStr ''A'')], [(''code'', DNull)]] of
                             [] \<Rightarrow> []
                           | r0 # rest \<Rightarrow>
                               (if field \<in> set (map fst r0)
                                then expected_duplicates field
                                       [[(''code'', DStr ''A'')], [(''code'', DStr ''B'')], [],
                                        [(''code'', DStr ''A'')], [(''code'', DNull)]]
                                else []))
               [''id'', ''code'', ''key''])
   = [duplicate_record ''code'' (DStr ''A'') 0 3, duplicate_record ''code'' DNull 2 4]"
proof -
  have "duplicate_checks [[(''code'', DStr ''A'')], [(''code'', DStr ''B'')], [],
                          [(''code'', DStr ''A'')], [(''code'', DNull)]]
        = [duplicate_record ''code'' (DStr ''A'') 0 3, duplicate_record ''code'' DNull 2 4]"
    by code_simp
  then show ?thesis
    by (rule trans [OF sym [OF conjunct1 [OF duplicate_checks_emitted]]])
qed

lemma distinct_map_insort_desc:
  "distinct (map f (insort_desc x ys)) \<longleftrightarrow> f x \<notin> f ` set ys \<and> distinct (map f ys)"
  by (induction ys) (auto simp: set_insort_desc)

lemma distinct_map_sorted_reverse: "distinct (map f (sorted_reverse xs)) \<longleftrightarrow> distinct (map f xs)"
  by (induction xs)
    (simp_all add: sorted_reverse_def distinct_map_insort_desc set_sorted_reverse [unfolded sorted_reverse_def])

lemma distinct_infer_tables: "distinct (infer_tables_from_query a q schema)"
proof -
  have "distinct (take 3 (map snd (filter P (sorted_reverse (scored_tables ws (remdups ts))))))"
    for P ws and ts :: "string list"
  proof -
    have "distinct (map snd (scored_tables ws (remdups ts)))"
      by (rule distinct_scored_tables) simp
    then have "distinct (map snd (sorted_reverse (scored_tables ws (remdups ts))))"
      by (simp add: distinct_map_sorted_reverse)
    then have "distinct (map snd (filter P (sorted_reverse (scored_tables ws (remdups ts)))))"
      by (rule distinct_map_filter)
    then show ?thesis by (rule distinct_take)
  qed
  then show ?thesis
    by (simp add: infer_tables_from_query_def Let_def split: option.splits)
qed

text \<open>
  C3 (amended). For a schema of the cache, the scored inference returns the tables of the
  schema whose score is at least 0.5, ranked by descending score, ties between tables of
  equal score broken by descending table name (the sort compares the pairs of score and
  name, in reverse), cut to the first three. The result is the same for every order in
  which the catalog lists the tables.
\<close>

theorem infer_tables_ranking:
  assumes "map_of (schema_cache a) s = Some td" and "s \<noteq> []"
  shows "infer_tables_from_query a q (Some s) =
         map snd (take 3 (rev (sorted_list_of_set
           {(score, table). table \<in> set (map fst td)
              \<and> table_score (findall_words (lower q)) table = Some score \<and> 1 / 2 \<le> score})))"
proof -
  define ws where "ws = findall_words (lower q)"
  define xs where "xs = scored_tables ws (remdups (map fst td))"
  have "distinct (map snd xs)"
    unfolding xs_def by (rule distinct_scored_tables) simp
  then have dx: "distinct xs" by (simp add: distinct_map)
  have set_eq: "{x \<in> set xs. (\<lambda>(score, table). 1 / 2 \<le> score) x} =
        {(score, table). table \<in> set (map fst td) \<and> table_score ws table = Some score \<and> 1 / 2 \<le> score}"
    by (auto simp: xs_def set_scored_tables)
  have "infer_tables_from_query a q (Some s) =
        take 3 (map snd (filter (\<lambda>(score, table). 1 / 2 \<le> score) (sorted_reverse xs)))"
    using assms by (simp add: infer_tables_from_query_def Let_def xs_def ws_def)
  also have "\<dots> = map snd (take 3 (filter (\<lambda>(score, table). 1 / 2 \<le> score) (sorted_reverse xs)))"
    by (simp add: take_map)
  finally show ?thesis
    unfolding filter_sorted_reverse [OF dx] set_eq ws_def .
qed


theorem infer_tables_ranking_witness:
  "infer_tables_from_query sales_schema_agent ''customers orders'' (Some ''SALES'') =
   map snd (take 3 (rev (sorted_list_of_set
     {(score, table).
        table \<in> set (map fst [(''CUSTOMERS'', [''ID'', ''NAME'']), (''ORDERS'', [''ID''])])
        \<and> table_score (findall_words (lower ''customers orders'')) table = Some score
        \<and> 1 / 2 \<le> score})))"
proof -
  have h1: "map_of (schema_cache sales_schema_agent) ''SALES'' =
            Some [(''CUSTOMERS'', [''ID'', ''NAME'']), (''ORDERS'', [''ID''])]"
    by (simp add: sales_schema_agent_def)
  have h2: "''SALES'' \<noteq> []"
    by simp
  show ?thesis
    by (rule infer_tables_ranking [OF h1 h2])
qed

text \<open>
  The claim as stated does not hold: two tables of equal score come out in descending
  order of their names, not in the order of the catalog.
\<close>

theorem infer_tables_order_counterexample:
  "infer_tables_from_query sales_schema_agent ''customers orders'' (Some ''SALES'')
     = [''ORDERS'', ''CUSTOMERS'']
   \<and> spec_infer_tables (findall_words (lower ''customers orders'')) [''CUSTOMERS'', ''ORDERS'']
     = [''CUSTOMERS'', ''ORDERS'']"
  by code_simp

section \<open>Properties of the partial-overlap score\<close>

lemma similarity_bounds: "0 \<le> similarity w t \<and> similarity w t \<le> 1"
  by (cases "w = [] \<and> t = []") (auto simp: similarity_def divide_le_eq_1)

lemma similarity_contained:
  assumes "w \<noteq> []" "is_substring t w"
  shows "similarity w t = 1"
proof -
  obtain a b where "w = a @ t @ b" using assms(2) by (auto simp: is_substring_iff)
  then have "length t \<le> length w" by simp
  then have "max (length w) (length t) = length w" by simp
  then show ?thesis using assms(1) by (simp add: similarity_def)
qed

lemma fold_max_step:
  fixes f :: "'a \<Rightarrow> rat"
  assumes "\<And>w acc. step w acc =
             (if P w then Some (max (case acc of None \<Rightarrow> 0 | Some s \<Rightarrow> s) (f w)) else acc)"
  shows "fold step ws acc =
           (if filter P ws = [] then acc
            else Some (Max (insert (case acc of None \<Rightarrow> 0 | Some s \<Rightarrow> s)
                              (f ` set (filter P ws)))))"
proof (induction ws arbitrary: acc)
  case Nil
  then show ?case by simp
next
  case (Cons w ws)
  define S where "S = f ` set (filter P ws)"
  have fin: "finite S" by (simp add: S_def)
  have emp: "S = {} \<longleftrightarrow> filter P ws = []" by (auto simp: S_def filter_empty_conv)
  show ?case
  proof (cases "P w")
    case True
    define x where "x = (case acc of None \<Rightarrow> (0::rat) | Some s \<Rightarrow> s)"
    have step: "step w acc = Some (max x (f w))"
      using True by (simp add: assms x_def)
    have mx: "Max (insert (max x (f w)) S) = Max (insert x (insert (f w) S))"
    proof (cases "S = {}")
      case True
      then show ?thesis by (simp add: max.commute)
    next
      case False
      then show ?thesis using fin by (simp add: max.assoc)
    qed
    have "fold step (w # ws) acc = fold step ws (Some (max x (f w)))"
      by (simp add: step)
    also have "\<dots> = (if filter P ws = [] then Some (max x (f w))
                       else Some (Max (insert (max x (f w)) S)))"
      unfolding S_def by (subst Cons.IH) simp
    also have "\<dots> = Some (Max (insert x (insert (f w) S)))"
      using mx emp by (auto simp: max.commute)
    finally show ?thesis
      using True by (simp add: S_def x_def)
  next
    case False
    then show ?thesis
      using Cons.IH [of acc] by (simp add: assms)
  qed
qed

text \<open>
  C4 (amended). For a table name with no exact and no singular or plural match among the
  words, the table has a score exactly when some word contains the lower-cased name or is
  contained in it, and the score is then the maximum, over those words, of the length of
  the word divided by the longer of the two lengths, times 0.8. So the score is 0.8 as
  soon as the name is a substring of a word, whatever the lengths; the ratio of the
  shorter to the longer length is used only for a word that is a substring of the name.
\<close>

theorem partial_overlap_score:
  assumes "lower table \<notin> set words"
    and "singular (lower table) \<notin> set words"
    and "plural (lower table) \<notin> set words"
  shows "table_score words table =
           (let ms = filter (\<lambda>w. is_substring (lower table) w \<or> is_substring w (lower table)) words
            in if ms = [] then None
               else Some (Max ((\<lambda>w. of_nat (length w)
                                      / of_nat (max (length w) (length (lower table)))
                                      * (8 / 10)) ` set ms)))
         \<and> ((\<exists>w\<in>set words. w \<noteq> [] \<and> is_substring (lower table) w) \<longrightarrow>
              table_score words table = Some (4 / 5))"
proof -
  define t where "t = lower table"
  define ms where "ms = filter (\<lambda>w. is_substring t w \<or> is_substring w t) words"
  define S where "S = (\<lambda>w. similarity w t * (8 / 10)) ` set ms"
  have fin: "finite S" by (simp add: S_def)
  have nonneg: "\<And>x. x \<in> S \<Longrightarrow> 0 \<le> x"
    using similarity_bounds by (auto simp: S_def)
  have le: "\<And>x. x \<in> S \<Longrightarrow> x \<le> 4 / 5"
    using similarity_bounds by (auto simp: S_def)
  have "table_score words table = fold (partial_step t) words None"
    using assms by (simp add: table_score_def Let_def t_def)
  also have "\<dots> = (if ms = [] then None else Some (Max (insert 0 S)))"
    using fold_max_step [of "partial_step t" "\<lambda>w. is_substring t w \<or> is_substring w t"
        "\<lambda>w. similarity w t * (8 / 10)" words None]
    by (simp add: partial_step_def ms_def S_def)
  finally have score: "table_score words table = (if ms = [] then None else Some (Max (insert 0 S)))" .
  have max0: "ms \<noteq> [] \<Longrightarrow> Max (insert 0 S) = Max S"
  proof -
    assume "ms \<noteq> []"
    then have ne: "S \<noteq> {}" by (simp add: S_def)
    then have "0 \<le> Max S" using fin nonneg by (meson Max_in)
    then show ?thesis using fin ne by (simp add: max_def)
  qed
  have first: "table_score words table = (if ms = [] then None else Some (Max S))"
    using score max0 by simp
  have second: "table_score words table = Some (4 / 5)"
    if "\<exists>w\<in>set words. w \<noteq> [] \<and> is_substring t w"
  proof -
    from that obtain w where w: "w \<in> set words" "w \<noteq> []" "is_substring t w" by blast
    then have "w \<in> set ms" by (simp add: ms_def)
    moreover have "similarity w t * (8 / 10) = 4 / 5"
      using similarity_contained [OF w(2) w(3)] by simp
    ultimately have "4 / 5 \<in> S" by (force simp: S_def)
    then have "Max S = 4 / 5" using fin le by (meson Max_eqI)
    moreover have "ms \<noteq> []" using \<open>w \<in> set ms\<close> by auto
    ultimately show ?thesis using first by simp
  qed
  show ?thesis
    using first second
    by (simp add: Let_def t_def ms_def S_def similarity_def)
qed

theorem partial_overlap_score_witness:
  "table_score (findall_words (lower ''show orders'')) ''ORD'' = Some (4 / 5)"
proof -
  have h1: "lower ''ORD'' \<notin> set (findall_words (lower ''show orders''))" by code_simp
  have h2: "singular (lower ''ORD'') \<notin> set (findall_words (lower ''show orders''))" by code_simp
  have h3: "plural (lower ''ORD'') \<notin> set (findall_words (lower ''show orders''))" by code_simp
  have h4: "\<exists>w\<in>set (findall_words (lower ''show orders'')). w \<noteq> [] \<and> is_substring (lower ''ORD'') w"
    by code_simp
  show ?thesis
    using partial_overlap_score [OF h1 h2 h3] h4 by blast
qed

text \<open>
  The claim as stated does not hold: for the table \<open>ORD\<close> and the word \<open>orders\<close> the
  score is 0.8, not \<open>3/6 * 0.8\<close>.
\<close>

theorem partial_score_counterexample:
  "table_score (findall_words (lower ''show orders'')) ''ORD'' = Some (4 / 5)
   \<and> spec_partial_score (findall_words (lower ''show orders'')) ''ORD'' = Some (2 / 5)"
  by code_simp

section \<open>Properties of schema resolution\<close>

lemma word_group_nonempty: "word_group s = Some (g, r) \<Longrightarrow> g \<noteq> []"
  by (auto simp: word_group_def Let_def split: if_splits)

lemma opt_char_some: "opt_char P k s = Some x \<Longrightarrow> \<exists>s'. k s' = Some x"
  by (auto simp: opt_char_def split: list.splits if_splits option.splits)

lemma after_lit_some: "after_lit l k s = Some x \<Longrightarrow> \<exists>s'. k s' = Some x"
  by (auto simp: after_lit_def split: option.splits)

lemma quoted_word_nonempty: "quoted_word s = Some (g, r) \<Longrightarrow> g \<noteq> []"
  by (auto simp: quoted_word_def split: option.splits dest!: opt_char_some word_group_nonempty)

lemma re_search_some: "re_search m q = Some g \<Longrightarrow> \<exists>s r. m s = Some (g, r)"
  by (induction q) (auto split: option.splits)

lemma schema_patterns_nonempty:
  "p \<in> set schema_patterns \<Longrightarrow> p s = Some (g, r) \<Longrightarrow> g \<noteq> []"
  by (auto simp: schema_patterns_def dest!: after_lit_some quoted_word_nonempty)

lemma first_known_some:
  "first_known ps q known = Some n \<Longrightarrow> n \<in> set known \<and> (\<exists>p\<in>set ps. re_search p q = Some n)"
  by (induction ps) (auto split: option.splits if_splits)

lemma first_known_filter:
  "first_known ps q known =
     (case filter (\<lambda>n. n \<in> set known) (List.map_filter (\<lambda>p. re_search p q) ps) of
        [] \<Rightarrow> None | n # rest \<Rightarrow> Some n)"
  by (induction ps) (auto simp: List.map_filter_simps split: option.splits)

lemma extract_schema_truthy:
  "extract_schema_from_query a q = Some n \<Longrightarrow> n \<noteq> [] \<and> n \<in> set (schemas a)"
  unfolding extract_schema_from_query_def
  by (auto dest!: first_known_some re_search_some schema_patterns_nonempty)

lemma get_schema_info_selected:
  "\<exists>r ev. get_schema_info a q ctx = Inr (r, ev) \<and>
     selected_schema r =
       (if truthy (ctx_get_str ctx ''suggested_schema'') then ctx_get_str ctx ''suggested_schema''
        else (case extract_schema_from_query a q of
                Some s \<Rightarrow> Some s
              | None \<Rightarrow> (case schemas a of [] \<Rightarrow> None | s # rest \<Rightarrow> Some s))) \<and>
     selected_tables r =
       (if ctx_get_strs ctx ''suggested_tables'' \<noteq> [] then ctx_get_strs ctx ''suggested_tables''
        else if extract_tables_from_query a q \<noteq> [] then extract_tables_from_query a q
        else infer_tables_from_query a q (selected_schema r))"
proof (cases "truthy (ctx_get_str ctx ''suggested_schema'')")
  case True
  then show ?thesis by (simp add: get_schema_info_def Let_def)
next
  case False
  show ?thesis
  proof (cases "extract_schema_from_query a q")
    case None
    then show ?thesis
      using False
      by (cases "schemas a") (simp_all add: get_schema_info_def Let_def truthy_def index0_def)
  next
    case (Some n)
    then have "truthy (Some n)" using extract_schema_truthy [OF Some] by (simp add: truthy_def)
    then show ?thesis using False Some by (simp add: get_schema_info_def Let_def)
  qed
qed

text \<open>
  C2 (amended). Schema resolution never raises, and the schema it selects is: the hint
  \<open>suggested_schema\<close> whenever the hint is present and not empty, whether or not it
  is a known schema; otherwise the first, in the order of the three patterns
  \<open>in schema X\<close>, \<open>from schema X\<close>, \<open>database X\<close>, of the patterns' first matches in
  the lower-cased request that is a known schema; otherwise the first known schema; and
  none when there is no hint and the catalog has no schema.
\<close>

theorem resolved_schema_rule:
  "resolved_schema a q ctx =
     Inr (if truthy (ctx_get_str ctx ''suggested_schema'') then ctx_get_str ctx ''suggested_schema''
          else (case extract_schema_from_query a q of
                  Some s \<Rightarrow> Some s
                | None \<Rightarrow> (case schemas a of [] \<Rightarrow> None | s # rest \<Rightarrow> Some s)))
   \<and> extract_schema_from_query a q =
       (case filter (\<lambda>n. n \<in> set (schemas a))
               (List.map_filter (\<lambda>p. re_search p (lower q)) schema_patterns) of
          [] \<Rightarrow> None | n # rest \<Rightarrow> Some n)
   \<and> (schemas a = [] \<and> \<not> truthy (ctx_get_str ctx ''suggested_schema'') \<longrightarrow>
        resolved_schema a q ctx = Inr None)"
proof -
  obtain r ev where r: "get_schema_info a q ctx = Inr (r, ev)"
    and s: "selected_schema r =
       (if truthy (ctx_get_str ctx ''suggested_schema'') then ctx_get_str ctx ''suggested_schema''
        else (case extract_schema_from_query a q of
                Some s \<Rightarrow> Some s
              | None \<Rightarrow> (case schemas a of [] \<Rightarrow> None | s # rest \<Rightarrow> Some s)))"
    using get_schema_info_selected [of a q ctx] by blast
  have 1: "resolved_schema a q ctx =
     Inr (if truthy (ctx_get_str ctx ''suggested_schema'') then ctx_get_str ctx ''suggested_schema''
          else (case extract_schema_from_query a q of
                  Some s \<Rightarrow> Some s
                | None \<Rightarrow> (case schemas a of [] \<Rightarrow> None | s # rest \<Rightarrow> Some s)))"
    using r s by (simp add: resolved_schema_def)
  have 2: "extract_schema_from_query a q =
       (case filter (\<lambda>n. n \<in> set (schemas a))
               (List.map_filter (\<lambda>p. re_search p (lower q)) schema_patterns) of
          [] \<Rightarrow> None | n # rest \<Rightarrow> Some n)"
    by (simp add: extract_schema_from_query_def first_known_filter)
  have 3: "resolved_schema a q ctx = Inr None"
    if "schemas a = []" "\<not> truthy (ctx_get_str ctx ''suggested_schema'')"
  proof -
    have "extract_schema_from_query a q = None"
      using that(1) 2 by simp
    then show ?thesis using 1 that by simp
  qed
  show ?thesis using 1 2 3 by blast
qed

theorem resolved_schema_rule_witness:
  "resolved_schema example_schema_agent ''list orders'' [(''suggested_schema'', CStr ''nope'')]
     = Inr (Some ''nope'')
   \<and> resolved_schema \<lparr>schemas = [], schema_cache = []\<rparr> ''list orders in schema hr'' []
     = Inr None"
proof -
  have t: "truthy (ctx_get_str [(''suggested_schema'', CStr ''nope'')] ''suggested_schema'')"
    and v: "ctx_get_str [(''suggested_schema'', CStr ''nope'')] ''suggested_schema'' = Some ''nope''"
    by (simp_all add: truthy_def ctx_get_str_def)
  have e: "schemas \<lparr>schemas = [], schema_cache = []\<rparr> = []
           \<and> \<not> truthy (ctx_get_str [] ''suggested_schema'')"
    by (simp add: truthy_def ctx_get_str_def)
  show ?thesis
    using resolved_schema_rule [of example_schema_agent "''list orders''"
        "[(''suggested_schema'', CStr ''nope'')]"]
      resolved_schema_rule [of "\<lparr>schemas = [], schema_cache = []\<rparr>"
        "''list orders in schema hr''" "[]"]
      t v e
    by simp
qed

text \<open>
  The claim as stated does not hold: a hint that is not a known schema is selected, where
  the reading of the specification falls back to the first known schema.
\<close>

theorem resolved_schema_hint_counterexample:
  "resolved_schema example_schema_agent ''list orders'' [(''suggested_schema'', CStr ''nope'')]
     = Inr (Some ''nope'')
   \<and> spec_target_schema example_schema_agent ''list orders'' (Some ''nope'') = Some ''app''"
  by code_simp

text \<open>
  C6 (amended). When the context carries no table hint and no table reference is
  extracted from the request, so that the tables come from the scored inference, the
  selected tables contain no table name twice. Hinted and extracted names are passed on
  as they are.
\<close>

theorem selected_tables_distinct:
  assumes "ctx_get_strs ctx ''suggested_tables'' = []"
    and "extract_tables_from_query a q = []"
  shows "\<exists>ts. resolved_tables a q ctx = Inr ts \<and> distinct ts"
proof -
  obtain r ev where "get_schema_info a q ctx = Inr (r, ev)"
    and "selected_tables r = infer_tables_from_query a q (selected_schema r)"
    using get_schema_info_selected [of a q ctx] assms by auto
  then show ?thesis
    by (simp add: resolved_tables_def distinct_infer_tables)
qed

theorem selected_tables_distinct_witness:
  "\<exists>ts. resolved_tables sales_schema_agent ''customers and orders''
           [(''user_query'', CStr ''customers and orders'')] = Inr ts \<and> distinct ts"
proof -
  have h1: "ctx_get_strs [(''user_query'', CStr ''customers and orders'')] ''suggested_tables'' = []"
    by (simp add: ctx_get_strs_def)
  have h2: "extract_tables_from_query sales_schema_agent ''customers and orders'' = []"
    by code_simp
  show ?thesis by (rule selected_tables_distinct [OF h1 h2])
qed

text \<open>
  The claim as stated does not hold: a request that names a table twice selects it twice.
\<close>

theorem selected_tables_duplicates_counterexample:
  "resolved_tables example_schema_agent
     ''select id from orders where id in (select id from orders)''
     [(''user_query'', CStr ''select id from orders where id in (select id from orders)'')]
   = Inr [''orders'', ''orders'']"
  by code_simp

section \<open>Properties of the run\<close>

lemma get_schema_info_total: "\<exists>r ev. get_schema_info a q ctx = Inr (r, ev)"
  using get_schema_info_selected [of a q ctx] by blast

lemma execute_query_bedrock:
  assumes "qa_bedrock_agent qa = Some gen"
  shows "\<exists>qr ev. execute_query qa q ctx = Inr (qr, ev)"
  using assms
  by (auto simp: execute_query_def generate_sql_query_def Let_def split: sum.splits option.splits)

lemma execute_query_failure:
  assumes "qa_bedrock_agent qa = Some gen"
    and "qa_execute qa (gen q (ctx_schema_info ctx)) = Inl msg"
  shows "execute_query qa q ctx =
         Inr (QueryError msg (gen q (ctx_schema_info ctx)), [DbExecute (gen q (ctx_schema_info ctx))])"
  using assms
  by (simp add: execute_query_def generate_sql_query_def Let_def ctx_schema_info_def)

lemma run_steps_total:
  assumes "qa_bedrock_agent (query_agent ag) = Some gen"
  shows "\<exists>ctx' evs'. run_steps ag q sts ctx evs = Inr (ctx', evs')"
proof (induction sts arbitrary: ctx evs)
  case Nil
  then show ?case by simp
next
  case (Cons step rest)
  obtain si ev1 where s: "get_schema_info (schema_agent ag) q ctx = Inr (si, ev1)"
    using get_schema_info_total by blast
  obtain qr ev2 where e: "execute_query (query_agent ag) q ctx = Inr (qr, ev2)"
    using execute_query_bedrock [OF assms] by blast
  obtain ds ev3 where c: "check_discrepancies (discrepancy_agent ag) ctx = (ds, ev3)"
    by (cases "check_discrepancies (discrepancy_agent ag) ctx")
  show ?case
    using Cons.IH by (simp add: s e c)
qed

lemma execute_plan_returns:
  assumes "qa_bedrock_agent (query_agent ag) = Some gen"
  shows "\<exists>res evs. execute_plan ag p q = Inr (res, evs)"
proof -
  obtain ctx' evs' where "run_steps ag q (steps p) [(''user_query'', CStr q)] [] = Inr (ctx', evs')"
    using run_steps_total [OF assms] by blast
  then show ?thesis by (simp add: execute_plan_def)
qed

lemma map_of_update_other: "k \<noteq> k' \<Longrightarrow> map_of (AList.update k v al) k' = map_of al k'"
  by (simp add: update_conv')

lemma map_of_update_same: "map_of (AList.update k v al) k = Some v"
  by (simp add: update_conv')

lemma check_discrepancies_without_rows:
  assumes "map_of ctx ''query_result'' = None \<or> failed_result qa ctx"
  shows "check_discrepancies da ctx = ([], [])"
  using assms
  by (auto simp: check_discrepancies_def failed_result_def
      split: option.splits ctxval.splits query_result.splits)

lemma run_steps_failing:
  assumes bedrock: "qa_bedrock_agent (query_agent ag) = Some gen"
    and fails: "\<forall>sql. \<exists>msg. qa_execute (query_agent ag) sql = Inl msg"
    and inv: "map_of ctx ''query_result'' = None \<or> failed_result (query_agent ag) ctx"
      "no_findings ctx"
  shows "\<exists>ctx' evs'. run_steps ag q sts ctx evs = Inr (ctx', evs')
           \<and> (map_of ctx' ''query_result'' = None \<or> failed_result (query_agent ag) ctx')
           \<and> no_findings ctx'
           \<and> (''query'' \<in> set (map agent sts) \<or> failed_result (query_agent ag) ctx
                \<longrightarrow> failed_result (query_agent ag) ctx')"
  using inv
proof (induction sts arbitrary: ctx evs)
  case Nil
  then show ?case by simp
next
  case (Cons step rest)
  consider (schema) "agent step = ''schema''"
    | (query) "agent step = ''query''"
    | (discrepancy) "agent step = ''discrepancy''"
    | (other) "agent step \<noteq> ''schema''" "agent step \<noteq> ''query''" "agent step \<noteq> ''discrepancy''"
    by blast
  then show ?case
  proof cases
    case schema
    obtain si ev1 where s: "get_schema_info (schema_agent ag) q ctx = Inr (si, ev1)"
      using get_schema_info_total by blast
    define ctx1 where "ctx1 = AList.update ''schema_info'' (CSchemaInfo si) ctx"
    have same: "map_of ctx1 ''query_result'' = map_of ctx ''query_result''"
      "map_of ctx1 ''discrepancies'' = map_of ctx ''discrepancies''"
      by (simp_all add: ctx1_def map_of_update_other)
    have f: "failed_result (query_agent ag) ctx1 = failed_result (query_agent ag) ctx"
      by (simp add: failed_result_def same)
    have i1: "map_of ctx1 ''query_result'' = None \<or> failed_result (query_agent ag) ctx1"
      using Cons.prems(1) by (simp add: same f)
    have i2: "no_findings ctx1"
      using Cons.prems(2) by (simp add: no_findings_def same)
    have run: "run_steps ag q (step # rest) ctx evs = run_steps ag q rest ctx1 (evs @ ev1)"
      using schema by (simp add: s ctx1_def)
    have mem: "''query'' \<in> set (map agent (step # rest)) \<longleftrightarrow> ''query'' \<in> set (map agent rest)"
      using schema by simp
    show ?thesis
      unfolding run mem using Cons.IH [OF i1 i2, of "evs @ ev1"] f by blast
  next
    case query
    define sql where "sql = gen q (ctx_schema_info ctx)"
    obtain msg where m: "qa_execute (query_agent ag) sql = Inl msg"
      using fails by blast
    define ctx1 where "ctx1 = AList.update ''query_result'' (CQueryResult (QueryError msg sql)) ctx"
    have e: "execute_query (query_agent ag) q ctx = Inr (QueryError msg sql, [DbExecute sql])"
      using execute_query_failure [OF bedrock, of q ctx msg] m by (simp add: sql_def)
    have f: "failed_result (query_agent ag) ctx1"
      by (simp add: failed_result_def ctx1_def map_of_update_same m)
    have i2: "no_findings ctx1"
      using Cons.prems(2) by (simp add: no_findings_def ctx1_def map_of_update_other)
    have run: "run_steps ag q (step # rest) ctx evs = run_steps ag q rest ctx1 (evs @ [DbExecute sql])"
      using query by (simp add: e ctx1_def)
    show ?thesis
      unfolding run using Cons.IH [OF disjI2 [OF f] i2, of "evs @ [DbExecute sql]"] f by blast
  next
    case discrepancy
    have c: "check_discrepancies (discrepancy_agent ag) ctx = ([], [])"
      using Cons.prems(1) by (rule check_discrepancies_without_rows)
    define ctx1 where "ctx1 = AList.update ''discrepancies'' (CDiscrepancies []) ctx"
    have same: "map_of ctx1 ''query_result'' = map_of ctx ''query_result''"
      by (simp add: ctx1_def map_of_update_other)
    have f: "failed_result (query_agent ag) ctx1 = failed_result (query_agent ag) ctx"
      by (simp add: failed_result_def same)
    have i1: "map_of ctx1 ''query_result'' = None \<or> failed_result (query_agent ag) ctx1"
      using Cons.prems(1) by (simp add: same f)
    have i2: "no_findings ctx1"
      by (simp add: no_findings_def ctx1_def map_of_update_same)
    have run: "run_steps ag q (step # rest) ctx evs = run_steps ag q rest ctx1 evs"
      using discrepancy by (simp add: c ctx1_def)
    have mem: "''query'' \<in> set (map agent (step # rest)) \<longleftrightarrow> ''query'' \<in> set (map agent rest)"
      using discrepancy by simp
    show ?thesis
      unfolding run mem using Cons.IH [OF i1 i2, of evs] f by blast
  next
    case other
    have run: "run_steps ag q (step # rest) ctx evs = run_steps ag q rest ctx evs"
      using other by simp
    have mem: "''query'' \<in> set (map agent (step # rest)) \<longleftrightarrow> ''query'' \<in> set (map agent rest)"
      using other by auto
    show ?thesis
      unfolding run mem using Cons.IH [OF Cons.prems, of evs] by blast
  qed
qed

text \<open>
  C8. Take an agent whose query agent has its Bedrock agent, as \<open>SQLAgent\<close> builds it,
  and a database that rejects the statements it is sent. A query stage then puts the
  failure into the query result as its error and the run goes on with the stages that
  follow; and for every plan the run returns a result, never an exception: its
  discrepancies are empty, and when the plan has a query stage its query result is the
  error of the database for the statement that was sent.
\<close>

theorem query_failure_captured:
  assumes "qa_bedrock_agent (query_agent ag) = Some gen"
    and "\<forall>sql. \<exists>msg. qa_execute (query_agent ag) sql = Inl msg"
  shows "(agent step = ''query'' \<longrightarrow>
           (\<exists>msg sql. qa_execute (query_agent ag) sql = Inl msg \<and>
              run_steps ag q (step # rest) ctx evs =
              run_steps ag q rest
                (AList.update ''query_result'' (CQueryResult (QueryError msg sql)) ctx)
                (evs @ [DbExecute sql])))
       \<and> (\<exists>res evs'. execute_plan ag p q = Inr (res, evs')
             \<and> res_discrepancies res = []
             \<and> (''query'' \<in> set (map agent (steps p)) \<longrightarrow>
                  (\<exists>msg sql. res_result res = Some (QueryError msg sql)
                     \<and> qa_execute (query_agent ag) sql = Inl msg)))"
proof -
  have 1: "\<exists>msg sql. qa_execute (query_agent ag) sql = Inl msg \<and>
              run_steps ag q (step # rest) ctx evs =
              run_steps ag q rest
                (AList.update ''query_result'' (CQueryResult (QueryError msg sql)) ctx)
                (evs @ [DbExecute sql])"
    if "agent step = ''query''"
  proof -
    define sql where "sql = gen q (ctx_schema_info ctx)"
    obtain msg where m: "qa_execute (query_agent ag) sql = Inl msg"
      using assms(2) by blast
    have "execute_query (query_agent ag) q ctx = Inr (QueryError msg sql, [DbExecute sql])"
      using execute_query_failure [OF assms(1), of q ctx msg] m by (simp add: sql_def)
    then have "run_steps ag q (step # rest) ctx evs =
               run_steps ag q rest
                 (AList.update ''query_result'' (CQueryResult (QueryError msg sql)) ctx)
                 (evs @ [DbExecute sql])"
      using that by simp
    then show ?thesis using m by blast
  qed
  have i1: "map_of [(''user_query'', CStr q)] ''query_result'' = None
            \<or> failed_result (query_agent ag) [(''user_query'', CStr q)]"
    by simp
  have i2: "no_findings [(''user_query'', CStr q)]"
    by (simp add: no_findings_def)
  obtain ctx' evs' where run: "run_steps ag q (steps p) [(''user_query'', CStr q)] [] = Inr (ctx', evs')"
    and nf: "no_findings ctx'"
    and fr: "''query'' \<in> set (map agent (steps p)) \<longrightarrow> failed_result (query_agent ag) ctx'"
    using run_steps_failing [OF assms i1 i2, of q "steps p" "[]"] by auto
  have d: "(case map_of ctx' ''discrepancies'' of Some (CDiscrepancies ds) \<Rightarrow> ds | _ \<Rightarrow> []) = []"
    using nf by (auto simp: no_findings_def split: option.splits ctxval.splits)
  have r: "\<exists>msg sql. (case map_of ctx' ''query_result'' of
                          Some (CQueryResult qr) \<Rightarrow> Some qr | _ \<Rightarrow> None) = Some (QueryError msg sql)
                       \<and> qa_execute (query_agent ag) sql = Inl msg"
    if "failed_result (query_agent ag) ctx'"
    using that
    by (auto simp: failed_result_def split: option.splits ctxval.splits query_result.splits)
  have 2: "\<exists>res evs'. execute_plan ag p q = Inr (res, evs')
             \<and> res_discrepancies res = []
             \<and> (''query'' \<in> set (map agent (steps p)) \<longrightarrow>
                  (\<exists>msg sql. res_result res = Some (QueryError msg sql)
                     \<and> qa_execute (query_agent ag) sql = Inl msg))"
    using fr r d by (simp add: execute_plan_def run)
  show ?thesis using 1 2 by blast
qed

end
